theory Spec2Isabelle
  imports Complex_Main "HOL-Library.Sublist"
begin

section \<open>Task results\<close>

text \<open>
  Modelled from the spec: the module scripts/models.py, which declares TaskStatus and
  TaskResult, is not among the sources. The status values are those of the spec's state
  machine; \<open>task_executor.py\<close> uses RUNNING, COMPLETED and FAILED.
\<close>

datatype TaskStatus = PENDING | RUNNING | COMPLETED | FAILED

text \<open>
  The dictionary assigned to \<open>result.worker_output\<close> on a success event. The keys
  \<open>usage\<close> and \<open>cost_usd\<close> are present only when the message carries the attribute.
\<close>

record worker_output =
  summary :: string
  raw_output :: string
  wo_usage :: "string option"
  wo_cost_usd :: "string option"

text \<open>
  Modelled from the spec: the TaskResult record of the missing scripts/models.py, with the
  attributes the spec lists. \<open>execute_task\<close> passes only \<open>task_id\<close>, \<open>status\<close>,
  \<open>created_at\<close> and \<open>started_at\<close> to the constructor; the optional attributes are absent
  (\<open>None\<close>) until assigned. Time stamps are seconds since the epoch.
\<close>

record TaskResult =
  task_id :: string
  status :: TaskStatus
  created_at :: real
  started_at :: real
  completed_at :: "real option"
  stdout :: "string option"
  error :: "string option"
  worker_output :: "worker_output option"

text \<open>
  Modelled from the spec: \<open>duration_seconds\<close> is the derived attribute of the missing
  TaskResult declaration, \<open>completed_at - started_at\<close>; \<open>execute_task\<close> never assigns it.
\<close>

definition duration_seconds :: "TaskResult \<Rightarrow> real option" where
  "duration_seconds r =
     (case completed_at r of None \<Rightarrow> None | Some c \<Rightarrow> Some (c - started_at r))"

section \<open>The agent call and its environment\<close>

text \<open>A raised Python exception: \<open>type(e).__name__\<close> and \<open>str(e)\<close>.\<close>

datatype exn = Exn (kind: string) (message: string)

text \<open>
  The objects yielded by \<open>query\<close> are inspected with \<open>hasattr\<close>: a field is \<open>Some\<close> exactly
  when the object has the attribute. \<open>result\<close> is read only on a message whose subtype is
  \<open>success\<close> or \<open>error\<close>; there \<open>None\<close> is Python's \<open>None\<close>.
\<close>

record block =
  block_text :: "string option"

record message =
  subtype :: "string option"
  result :: "string option"
  usage :: "string option"
  total_cost_usd :: "string option"
  content :: "block list option"

text \<open>
  One call of \<open>query\<close>: the messages it yields and how the iteration ends, normally
  (\<open>None\<close>) or by raising an exception after the last message.
\<close>

record agent_stream =
  messages :: "message list"
  raises :: "exn option"

text \<open>
  A JSON file that the program writes with \<open>open(path, "w")\<close>: it does not exist, it
  exists without holding a complete document, or it holds one.
\<close>

datatype 'a json_file = Missing | Broken | Holds 'a

text \<open>
  How a write with \<open>open(path, "w")\<close> fails: \<open>open\<close> raises and the file stays as it
  was, or the file has been opened, and so truncated, when writing raises.
\<close>

datatype failure = OpenRaises exn | WriteRaises exn

fun raised :: "failure \<Rightarrow> exn" where
  "raised (OpenRaises e) = e"
| "raised (WriteRaises e) = e"

fun after_failure :: "failure \<Rightarrow> 'a json_file \<Rightarrow> 'a json_file" where
  "after_failure (OpenRaises e) f = f"
| "after_failure (WriteRaises e) f = Broken"

text \<open>
  The environment of the executor: the \<open>tasks_dir\<close> that the executor is constructed
  with, the task documents that can be opened (by the \<open>task_file\<close> that names them, with
  their content), the results directory (task id to the file
  \<open>results/<task_id>.json\<close>), whether the \<open>n\<close>-th write of a result file fails, the
  readings of \<open>datetime.now()\<close> in the order of the calls, the behaviour of
  the agent at each call of \<open>query\<close>, and the prompts that the agent has received.
\<close>

record world =
  tasks_dir :: string
  task_files :: "string \<rightharpoonup> string"
  result_files :: "string \<Rightarrow> TaskResult json_file"
  result_disk :: "nat \<Rightarrow> failure option"
  result_writes :: nat
  clock :: "nat \<Rightarrow> real"
  reads :: nat
  agent :: "nat \<Rightarrow> string \<Rightarrow> agent_stream"
  calls :: nat
  asked :: "string list"

definition now :: "world \<Rightarrow> real \<times> world" where
  "now w = (clock w (reads w), w\<lparr>reads := Suc (reads w)\<rparr>)"

definition query :: "string \<Rightarrow> world \<Rightarrow> agent_stream \<times> world" where
  "query prompt w =
     (agent w (calls w) prompt, w\<lparr>calls := Suc (calls w), asked := asked w @ [prompt]\<rparr>)"

section \<open>task\_executor.py\<close>

text \<open>\<open>str.rfind\<close> for one character; \<open>None\<close> stands for \<open>-1\<close>.\<close>

fun rfind :: "char \<Rightarrow> string \<Rightarrow> nat option" where
  "rfind c [] = None"
| "rfind c (x # xs) =
     (case rfind c xs of
        Some i \<Rightarrow> Some (Suc i)
      | None \<Rightarrow> if x = c then Some 0 else None)"

text \<open>
  Paths as \<open>pathlib\<close> reads them on POSIX: \<open>s.split("/")\<close>; the components of a path,
  where empty components and \<open>.\<close> are dropped; its root, which is \<open>//\<close> after exactly
  two leading separators; \<open>str(Path(s))\<close>; and \<open>Path(s).name\<close>, the last component.
\<close>

fun split_path :: "string \<Rightarrow> string list" where
  "split_path [] = [[]]"
| "split_path (c # cs) =
     (if c = CHR ''/'' then [] # split_path cs
      else (case split_path cs of
              p # ps \<Rightarrow> (c # p) # ps
            | [] \<Rightarrow> [[c]]))"

definition path_parts :: "string \<Rightarrow> string list" where
  "path_parts s = filter (\<lambda>p. p \<noteq> [] \<and> p \<noteq> ''.'') (split_path s)"

definition path_root :: "string \<Rightarrow> string" where
  "path_root s =
     (if take 1 s \<noteq> ''/'' then []
      else if take 2 s = ''//'' \<and> take 3 s \<noteq> ''///'' then ''//''
      else ''/'')"

fun join_path :: "string list \<Rightarrow> string" where
  "join_path [] = []"
| "join_path [x] = x"
| "join_path (x # y # ys) = x @ CHR ''/'' # join_path (y # ys)"

definition path_str :: "string \<Rightarrow> string" where
  "path_str s =
     (if path_root s = [] \<and> path_parts s = [] then ''.''
      else path_root s @ join_path (path_parts s))"

definition path_name :: "string \<Rightarrow> string" where
  "path_name s = (if path_parts s = [] then [] else last (path_parts s))"

text \<open>
  \<open>Path(task_file).stem\<close>: the name up to its last dot, when that dot is neither the
  first nor the last character of the name.
\<close>

definition stem :: "string \<Rightarrow> string" where
  "stem task_file =
     (let name = path_name task_file
      in case rfind (CHR ''.'') name of
           Some i \<Rightarrow> if 0 < i \<and> Suc i < length name then take i name else name
         | None \<Rightarrow> name)"

text \<open>\<open>"\n".join(full_output)\<close>\<close>

fun join_lines :: "string list \<Rightarrow> string" where
  "join_lines [] = []"
| "join_lines [x] = x"
| "join_lines (x # y # ys) = x @ CHR 0x0A # join_lines (y # ys)"

text \<open>\<open>x or default\<close> on an optional string: \<open>None\<close> and the empty string are falsy.\<close>

definition py_or :: "string option \<Rightarrow> string \<Rightarrow> string" where
  "py_or x d = (case x of None \<Rightarrow> d | Some s \<Rightarrow> if s = [] then d else s)"

text \<open>
  \<open>str(self.tasks_dir / task_file)\<close>: an absolute \<open>task_file\<close> replaces the directory;
  otherwise the two are joined with a separator, unless the directory is empty or ends in
  one, and the result is read as a path.
\<close>

definition path_join :: "string \<Rightarrow> string \<Rightarrow> string" where
  "path_join a b =
     (if take 1 b = ''/'' then b
      else if a = [] \<or> last a = CHR ''/'' then a @ b
      else a @ ''/'' @ b)"

definition task_path :: "world \<Rightarrow> string \<Rightarrow> string" where
  "task_path w task_file = path_str (path_join (tasks_dir w) task_file)"

definition read_task_document :: "world \<Rightarrow> string \<Rightarrow> exn + string" where
  "read_task_document w task_file =
     (case task_files w task_file of
        Some c \<Rightarrow> Inr c
      | None \<Rightarrow>
          Inl (Exn ''FileNotFoundError''
                 (''Task document not found: '' @ task_path w task_file)))"

text \<open>
  \<open>_save_result\<close>: the exception it raises, if any, and the environment. The file is
  opened, and so truncated, before the document is written.
\<close>

definition save_result :: "TaskResult \<Rightarrow> world \<Rightarrow> exn option \<times> world" where
  "save_result r w =
     (case result_disk w (result_writes w) of
        None \<Rightarrow>
          (None, w\<lparr>result_files := (result_files w)(task_id r := Holds r),
                    result_writes := Suc (result_writes w)\<rparr>)
      | Some f \<Rightarrow>
          (Some (raised f),
           w\<lparr>result_files :=
                (result_files w)(task_id r := after_failure f (result_files w (task_id r))),
              result_writes := Suc (result_writes w)\<rparr>))"

definition prompt_of :: "string \<Rightarrow> string" where
  "prompt_of task_content =
     ''/task-coordination'' @ [CHR 0x0A, CHR 0x0A] @ ''Execute the following task:''
       @ [CHR 0x0A, CHR 0x0A] @ task_content @ [CHR 0x0A]"

text \<open>The texts of the blocks of a content message that have a \<open>text\<close> attribute.\<close>

fun block_texts :: "block list \<Rightarrow> string list" where
  "block_texts [] = []"
| "block_texts (b # bs) =
     (case block_text b of Some t \<Rightarrow> t # block_texts bs | None \<Rightarrow> block_texts bs)"

text \<open>
  The \<open>async for\<close> loop of \<open>execute_task\<close>. It returns the exception that left the loop, if
  any, the result object as mutated so far, and the environment. A success or error
  message leaves the loop by \<open>break\<close>, so the rest of the stream is never consumed.
\<close>

fun consume ::
  "message list \<Rightarrow> exn option \<Rightarrow> string list \<Rightarrow> TaskResult \<Rightarrow> world
     \<Rightarrow> exn option \<times> TaskResult \<times> world" where
  "consume [] ending full_output r w = (ending, r, w)"
| "consume (m # ms) ending full_output r w =
     (case subtype m of
        Some s \<Rightarrow>
          if s = ''success'' then
            (let r1 = r\<lparr>status := COMPLETED\<rparr>;
                 (t, w1) = now w;
                 r2 = r1\<lparr>completed_at := Some t\<rparr>;
                 r3 = r2\<lparr>worker_output := Some
                        \<lparr>summary = py_or (result m) ''Task completed'',
                         raw_output = join_lines full_output,
                         wo_usage = usage m,
                         wo_cost_usd = total_cost_usd m\<rparr>\<rparr>
             in (None, r3, w1))
          else if s = ''error'' then
            (let r1 = r\<lparr>status := FAILED\<rparr>;
                 (t, w1) = now w;
                 r2 = r1\<lparr>completed_at := Some t\<rparr>;
                 r3 = r2\<lparr>error := Some (py_or (result m) ''Task failed'')\<rparr>
             in (None, r3, w1))
          else consume ms ending full_output r w
      | None \<Rightarrow>
          (case content m of
             Some blocks \<Rightarrow> consume ms ending (full_output @ block_texts blocks) r w
           | None \<Rightarrow> consume ms ending full_output r w))"

text \<open>
  The \<open>except\<close> clause of \<open>execute_task\<close> and the \<open>return\<close> after it. The write of
  the result is unguarded here: when it raises, its exception propagates to the caller.
\<close>

definition on_exception :: "exn \<Rightarrow> TaskResult \<Rightarrow> world \<Rightarrow> (exn + TaskResult) \<times> world" where
  "on_exception e r w =
     (let r2 = r\<lparr>status := FAILED\<rparr>;
          r3 = r2\<lparr>error := Some (kind e @ '': '' @ message e)\<rparr>;
          (t3, w1) = now w;
          r4 = r3\<lparr>completed_at := Some t3\<rparr>;
          (exc, w2) = save_result r4 w1
      in case exc of
           None \<Rightarrow> (Inr r4, w2)
         | Some e2 \<Rightarrow> (Inl e2, w2))"

text \<open>
  \<open>TaskExecutor.execute_task\<close>. \<open>Inl\<close> is the exception that propagates to the caller:
  that of the read of the task document, which is outside the \<open>try\<close>, or that of the
  write in the \<open>except\<close> clause. \<open>Inr\<close> is the returned result. The exceptions inside
  the \<open>try\<close> are those of the agent's stream and of the write of the result, all
  instances of \<open>Exception\<close>. The options passed to \<open>query\<close> are constant and left out.
\<close>

definition execute_task :: "string \<Rightarrow> world \<Rightarrow> (exn + TaskResult) \<times> world" where
  "execute_task task_file w =
     (case read_task_document w task_file of
        Inl e \<Rightarrow> (Inl e, w)
      | Inr task_content \<Rightarrow>
          (let (t1, w1) = now w;
               (t2, w2) = now w1;
               r0 = \<lparr>task_id = stem task_file, status = RUNNING, created_at = t1,
                     started_at = t2, completed_at = None, stdout = None, error = None,
                     worker_output = None\<rparr>;
               (strm, w3) = query (prompt_of task_content) w2;
               (exc, r1, w4) = consume (messages strm) (raises strm) [] r0 w3;
               (exc1, w5) = (case exc of
                               None \<Rightarrow> save_result r1 w4
                             | Some e \<Rightarrow> (Some e, w4))
           in case exc1 of
                None \<Rightarrow> (Inr r1, w5)
              | Some e \<Rightarrow> on_exception e r1 w5))"

section \<open>monitor\_daemon.py\<close>

text \<open>The JSON object written to \<open>state/queue_state.json\<close>.\<close>

record QueueState =
  queue_size :: nat
  state_current_task :: "string option"
  state_is_processing :: bool
  queued_tasks :: "string list"

text \<open>The messages of the logger that \<open>TaskQueue\<close> and \<open>_process_queue\<close> emit.\<close>

datatype log_entry =
    TaskQueued string nat
  | TaskRetrieved string
  | StartingTask string nat
  | TaskCompleted string TaskStatus real
  | TaskFailed string exn
  | ErrorProcessing exn

text \<open>
  Where the coroutine \<open>_process_queue\<close> stands: at the head of its loop (waiting in
  \<open>get_next\<close>, or in the \<open>sleep\<close> that ends an iteration), inside
  \<open>await execute_task(task_file)\<close>, after the loop has ended because \<open>running\<close> is false,
  or ended by an exception that left the coroutine.
\<close>

datatype control = Waiting | Executing string | Exited | Crashed exn

text \<open>
  The daemon with its \<open>TaskQueue\<close>: the queue, \<open>current_task\<close>, \<open>is_processing\<close>, the
  \<open>running\<close> flag, the file \<open>state/queue_state.json\<close>, the log, and the environment.
  \<open>disk n\<close> tells whether the \<open>n\<close>-th write of the state file fails, and how.
  \<open>timeout_alias\<close> tells whether \<open>asyncio.TimeoutError\<close> is the built-in
  \<open>TimeoutError\<close>, as it is from Python 3.11 on.
\<close>

record daemon =
  queue :: "string list"
  current_task :: "string option"
  is_processing :: bool
  running :: bool
  state_file :: "QueueState json_file"
  disk :: "nat \<Rightarrow> failure option"
  writes :: nat
  log :: "log_entry list"
  pc :: control
  env :: world
  timeout_alias :: bool

definition save_state :: "daemon \<Rightarrow> exn option \<times> daemon" where
  "save_state d =
     (let state = \<lparr>queue_size = length (queue d),
                   state_current_task = current_task d,
                   state_is_processing = is_processing d,
                   queued_tasks = []\<rparr>
      in case disk d (writes d) of
           None \<Rightarrow> (None, d\<lparr>state_file := Holds state, writes := Suc (writes d)\<rparr>)
         | Some f \<Rightarrow>
             (Some (raised f),
              d\<lparr>state_file := after_failure f (state_file d), writes := Suc (writes d)\<rparr>))"

text \<open>
  \<open>_load_state\<close> and \<open>get_queued_tasks\<close>. \<open>json.load\<close> raises on a file that holds no
  complete document. A file that holds one was written by \<open>_save_state\<close>, in this run or
  an earlier one, and so has the key \<open>queued_tasks\<close>.
\<close>

datatype load_error = JSONDecodeError

definition load_state :: "daemon \<Rightarrow> load_error + QueueState" where
  "load_state d =
     (case state_file d of
        Holds s \<Rightarrow> Inr s
      | Broken \<Rightarrow> Inl JSONDecodeError
      | Missing \<Rightarrow> Inr \<lparr>queue_size = 0, state_current_task = None,
                         state_is_processing = False, queued_tasks = []\<rparr>)"

definition get_queued_tasks :: "daemon \<Rightarrow> load_error + string list" where
  "get_queued_tasks d =
     (case load_state d of
        Inl e \<Rightarrow> Inl e
      | Inr s \<Rightarrow> Inr (queued_tasks s))"

definition put :: "string \<Rightarrow> daemon \<Rightarrow> exn option \<times> daemon" where
  "put task_file d =
     (let d1 = d\<lparr>queue := queue d @ [task_file]\<rparr>;
          d2 = d1\<lparr>log := log d1 @ [TaskQueued task_file (length (queue d1))]\<rparr>
      in save_state d2)"

text \<open>
  \<open>asyncio.wait_for(self.task_queue.get_next(), timeout=1.0)\<close>: on an empty queue the
  wait ends in the timeout; a task that arrives during the wait is a \<open>put\<close> scheduled
  before this step.
\<close>

datatype 'a awaited = Timeout | Raised exn | Returned 'a

definition get_next :: "daemon \<Rightarrow> string awaited \<times> daemon" where
  "get_next d =
     (case queue d of
        [] \<Rightarrow> (Timeout, d)
      | task # rest \<Rightarrow>
          (let d1 = d\<lparr>queue := rest\<rparr>;
               d2 = d1\<lparr>log := log d1 @ [TaskRetrieved task]\<rparr>;
               (x, d3) = save_state d2
           in case x of
                Some e \<Rightarrow> (Raised e, d3)
              | None \<Rightarrow> (Returned task, d3)))"

text \<open>
  The body of the outer \<open>except Exception\<close> of \<open>_process_queue\<close>. An exception raised
  inside it leaves the coroutine; otherwise the loop goes on with its next iteration.
\<close>

definition on_error :: "exn \<Rightarrow> daemon \<Rightarrow> daemon" where
  "on_error e d =
     (let d1 = d\<lparr>log := log d @ [ErrorProcessing e]\<rparr>;
          d2 = d1\<lparr>current_task := None\<rparr>;
          d3 = d2\<lparr>is_processing := False\<rparr>;
          (x, d4) = save_state d3
      in case x of
           Some e' \<Rightarrow> d4\<lparr>pc := Crashed e'\<rparr>
         | None \<Rightarrow> d4\<lparr>pc := Waiting\<rparr>)"

text \<open>
  The two \<open>except\<close> clauses of the outer \<open>try\<close>, in their order:
  \<open>except asyncio.TimeoutError: continue\<close> comes first, and where \<open>asyncio.TimeoutError\<close>
  is the built-in \<open>TimeoutError\<close> it also catches a time-out that a write of the state
  file raises; every other exception reaches \<open>except Exception\<close>.
\<close>

definition swallowed :: "daemon \<Rightarrow> exn \<Rightarrow> bool" where
  "swallowed d e = (timeout_alias d \<and> kind e = ''TimeoutError'')"

definition except_clauses :: "exn \<Rightarrow> daemon \<Rightarrow> daemon" where
  "except_clauses e d = (if swallowed d e then d\<lparr>pc := Waiting\<rparr> else on_error e d)"

text \<open>
  One run of \<open>_process_queue\<close> from one suspension point to the next: from the loop head
  to the call of \<open>execute_task\<close>, or from that call to the end of the iteration. An
  exception of \<open>execute_task\<close> is caught by the inner \<open>except Exception\<close>.
\<close>

definition process_queue :: "daemon \<Rightarrow> daemon" where
  "process_queue d =
     (case pc d of
        Waiting \<Rightarrow>
          if \<not> running d then d\<lparr>pc := Exited\<rparr>
          else
            (case get_next d of
               (Timeout, d1) \<Rightarrow> d1
             | (Raised e, d1) \<Rightarrow> except_clauses e d1
             | (Returned task_file, d1) \<Rightarrow>
                 (let d2 = d1\<lparr>log := log d1 @ [StartingTask task_file (length (queue d1))]\<rparr>;
                      d3 = d2\<lparr>is_processing := True\<rparr>;
                      d4 = d3\<lparr>current_task := Some task_file\<rparr>;
                      (x, d5) = save_state d4
                  in case x of
                       Some e \<Rightarrow> except_clauses e d5
                     | None \<Rightarrow> d5\<lparr>pc := Executing task_file\<rparr>))
      | Executing task_file \<Rightarrow>
          (let (res, w) = execute_task task_file (env d);
               d1 = d\<lparr>env := w\<rparr>;
               d2 = (case res of
                       Inr r \<Rightarrow>
                         (let duration = (case completed_at r of
                                            Some c \<Rightarrow> c - started_at r
                                          | None \<Rightarrow> 0)
                          in d1\<lparr>log := log d1 @ [TaskCompleted task_file (status r) duration]\<rparr>)
                     | Inl e \<Rightarrow> d1\<lparr>log := log d1 @ [TaskFailed task_file e]\<rparr>);
               d3 = d2\<lparr>current_task := None\<rparr>;
               d4 = d3\<lparr>is_processing := False\<rparr>;
               (x, d5) = save_state d4
           in case x of
                Some e \<Rightarrow> except_clauses e d5
              | None \<Rightarrow> d5\<lparr>pc := Waiting\<rparr>)
      | Exited \<Rightarrow> d
      | Crashed e \<Rightarrow> d)"

text \<open>
  The event loop runs the single \<open>_process_queue\<close> coroutine and the \<open>put\<close> coroutines
  that the watcher schedules with \<open>run_coroutine_threadsafe\<close>, one for each new file
  that matches \<open>task-*.md\<close>; a \<open>put\<close> runs only while \<open>_process_queue\<close> is suspended.
  An exception of \<open>put\<close> stays in its future, which nobody reads. A schedule lists, in
  the order in which the loop runs them, the \<open>put\<close> coroutines and the steps of
  \<open>_process_queue\<close>.
\<close>

datatype event = Enqueue string | Advance

fun fire :: "event \<Rightarrow> daemon \<Rightarrow> daemon" where
  "fire (Enqueue task_file) d = snd (put task_file d)"
| "fire Advance d = process_queue d"

fun run :: "event list \<Rightarrow> daemon \<Rightarrow> daemon" where
  "run [] d = d"
| "run (ev # evs) d = run evs (fire ev d)"

text \<open>
  The daemon when \<open>_run\<close> has created the queue processor. \<open>TaskQueue.__init__\<close> does
  not touch the state file, so the run starts on the file \<open>sf\<close> that an earlier run
  may have left.
\<close>

definition MonitorDaemon ::
  "bool \<Rightarrow> QueueState json_file \<Rightarrow> (nat \<Rightarrow> failure option) \<Rightarrow> world \<Rightarrow> daemon" where
  "MonitorDaemon aliased sf dk w =
     \<lparr>queue = [], current_task = None, is_processing = False, running = True,
      state_file = sf, disk = dk, writes = 0, log = [], pc = Waiting, env = w,
      timeout_alias = aliased\<rparr>"

section \<open>Auxiliary notions\<close>

text \<open>
  A message that ends the loop of \<open>execute_task\<close>, the terminal statuses, the result
  object as constructed before the agent is called, and the stream that the call of
  \<open>query\<close> inside \<open>execute_task\<close> receives.
\<close>

definition terminal_event :: "message \<Rightarrow> bool" where
  "terminal_event m = (subtype m = Some ''success'' \<or> subtype m = Some ''error'')"

definition terminal :: "TaskStatus \<Rightarrow> bool" where
  "terminal s = (s = COMPLETED \<or> s = FAILED)"

definition initial_result :: "string \<Rightarrow> world \<Rightarrow> TaskResult" where
  "initial_result task_file w =
     \<lparr>task_id = stem task_file, status = RUNNING, created_at = clock w (reads w),
      started_at = clock w (Suc (reads w)), completed_at = None, stdout = None,
      error = None, worker_output = None\<rparr>"

definition stream_of :: "string \<Rightarrow> world \<Rightarrow> agent_stream" where
  "stream_of task_content w = agent w (calls w) (prompt_of task_content)"

text \<open>
  The values that \<open>result.status\<close> takes during one call of \<open>execute_task\<close>, in order:
  the constructor's RUNNING, the assignment of the loop before its \<open>break\<close>, and the
  assignment of the \<open>except\<close> clause, which runs when the stream or the write of the
  result raises.
\<close>

fun loop_statuses :: "message list \<Rightarrow> TaskStatus list" where
  "loop_statuses [] = []"
| "loop_statuses (m # ms) =
     (case subtype m of
        Some s \<Rightarrow>
          if s = ''success'' then [COMPLETED]
          else if s = ''error'' then [FAILED]
          else loop_statuses ms
      | None \<Rightarrow> loop_statuses ms)"

definition status_history :: "string \<Rightarrow> world \<Rightarrow> TaskStatus list" where
  "status_history task_file w =
     (case read_task_document w task_file of
        Inl e \<Rightarrow> []
      | Inr task_content \<Rightarrow>
          (let (t1, w1) = now w;
               (t2, w2) = now w1;
               r0 = \<lparr>task_id = stem task_file, status = RUNNING, created_at = t1,
                     started_at = t2, completed_at = None, stdout = None, error = None,
                     worker_output = None\<rparr>;
               (strm, w3) = query (prompt_of task_content) w2;
               (exc, r1, w4) = consume (messages strm) (raises strm) [] r0 w3;
               (exc1, w5) = (case exc of
                               None \<Rightarrow> save_result r1 w4
                             | Some e \<Rightarrow> (Some e, w4))
           in [RUNNING] @ loop_statuses (messages strm) @
              (case exc1 of None \<Rightarrow> [] | Some e \<Rightarrow> [FAILED])))"

text \<open>
  The environment after the executor has run a list of tasks one after the other, whether
  the results directory holds a result of a task under its task id, and the prompts of
  those tasks whose documents exist.
\<close>

definition served :: "world \<Rightarrow> string list \<Rightarrow> world" where
  "served w ts = foldl (\<lambda>v t. snd (execute_task t v)) w ts"

definition stored_for :: "world \<Rightarrow> string \<Rightarrow> bool" where
  "stored_for w t =
     (case result_files w (stem t) of Holds r \<Rightarrow> task_id r = stem t | _ \<Rightarrow> False)"

definition prompts :: "world \<Rightarrow> string list \<Rightarrow> string list" where
  "prompts w ts = map prompt_of (List.map_filter (task_files w) ts)"

section \<open>Auxiliary notions for the daemon\<close>

text \<open>
  The log entry that ends an execution, as \<open>_process_queue\<close> writes it: the status and
  the duration when \<open>execute_task\<close> returns, the exception when it raises.
\<close>

definition outcome_entry :: "string \<Rightarrow> exn + TaskResult \<Rightarrow> log_entry" where
  "outcome_entry task_file res =
     (case res of
        Inr r \<Rightarrow>
          TaskCompleted task_file (status r)
            (case completed_at r of Some c \<Rightarrow> c - started_at r | None \<Rightarrow> 0)
      | Inl e \<Rightarrow> TaskFailed task_file e)"

text \<open>
  The exception of \<open>_read_task_document\<close>.
\<close>

definition not_found :: "world \<Rightarrow> string \<Rightarrow> exn" where
  "not_found w task_file =
     Exn ''FileNotFoundError'' (''Task document not found: '' @ task_path w task_file)"

text \<open>
  Readings of the log and of a schedule: the tasks whose execution has ended, the tasks
  that \<open>get_next\<close> has taken from the queue, the tasks that a schedule enqueues, and the
  task inside \<open>execute_task\<close>, if any.
\<close>

fun executed :: "log_entry list \<Rightarrow> string list" where
  "executed [] = []"
| "executed (TaskCompleted t s dur # l) = t # executed l"
| "executed (TaskFailed t e # l) = t # executed l"
| "executed (x # l) = executed l"

fun taken :: "log_entry list \<Rightarrow> string list" where
  "taken [] = []"
| "taken (TaskRetrieved t # l) = t # taken l"
| "taken (x # l) = taken l"

fun enqueued :: "event list \<Rightarrow> string list" where
  "enqueued [] = []"
| "enqueued (Enqueue t # evs) = t # enqueued evs"
| "enqueued (Advance # evs) = enqueued evs"

definition inflight :: "control \<Rightarrow> string list" where
  "inflight c = (case c of Executing t \<Rightarrow> [t] | _ \<Rightarrow> [])"

text \<open>
  The order of service: executed tasks, then the one in execution, then the waiting ones.
  \<open>remaining\<close> counts the steps of \<open>_process_queue\<close> that empty the queue.
\<close>

definition task_order :: "daemon \<Rightarrow> string list" where
  "task_order d = executed (log d) @ inflight (pc d) @ queue d"

definition remaining :: "daemon \<Rightarrow> nat" where
  "remaining d = 2 * length (queue d) + length (inflight (pc d))"

text \<open>
  Sequential execution, read off the log: an execution is open from \<open>Starting task\<close> to
  the entry of its outcome (or to the entry of the outer handler, when the state file could
  not be written before the call). \<open>Overlap\<close> marks a log in which a task starts while
  another is open, or ends without being the open one.
\<close>

datatype bracket = Idle | Busy string | Overlap

fun track :: "bracket \<Rightarrow> log_entry \<Rightarrow> bracket" where
  "track Idle (StartingTask t n) = Busy t"
| "track (Busy u) (StartingTask t n) = Overlap"
| "track Idle (TaskCompleted t s dur) = Overlap"
| "track (Busy u) (TaskCompleted t s dur) = (if t = u then Idle else Overlap)"
| "track Idle (TaskFailed t e) = Overlap"
| "track (Busy u) (TaskFailed t e) = (if t = u then Idle else Overlap)"
| "track (Busy u) (ErrorProcessing e) = Idle"
| "track Overlap x = Overlap"
| "track b x = b"

definition brackets :: "log_entry list \<Rightarrow> bracket" where
  "brackets l = foldl track Idle l"

text \<open>
  No failure of a write of the state file is a time-out that the first \<open>except\<close> clause
  of the loop catches.
\<close>

definition unswallowed :: "daemon \<Rightarrow> bool" where
  "unswallowed d = (\<forall>n f. disk d n = Some f \<longrightarrow> \<not> swallowed d (raised f))"

text \<open>
  Invariants of the daemon. \<open>coherent sf\<close>: the log and the flags agree with the control
  point, and the state file is either the file \<open>sf\<close> on which the run started or agrees
  with the control point too. \<open>healthy\<close>: the loop is alive and every write of the state
  file succeeds. \<open>orderly\<close>: what has been executed was taken from the queue, in that
  order.
\<close>

definition coherent :: "QueueState json_file \<Rightarrow> daemon \<Rightarrow> bool" where
  "coherent sf d =
     (brackets (log d) = (case pc d of Executing t \<Rightarrow> Busy t | _ \<Rightarrow> Idle)
      \<and> (case pc d of
            Executing t \<Rightarrow> current_task d = Some t \<and> is_processing d
          | _ \<Rightarrow> current_task d = None \<and> \<not> is_processing d)
      \<and> (state_file d = sf
          \<or> (case state_file d of
                Holds s \<Rightarrow>
                  \<not> state_is_processing s
                  \<or> (case pc d of
                        Executing t \<Rightarrow> state_current_task s = Some t
                      | Crashed e \<Rightarrow> state_current_task s \<noteq> None
                      | _ \<Rightarrow> False)
              | _ \<Rightarrow> True)))"

definition healthy :: "daemon \<Rightarrow> bool" where
  "healthy d =
     (running d \<and> (\<forall>n. disk d n = None) \<and> (\<forall>e. pc d \<noteq> Crashed e) \<and> pc d \<noteq> Exited)"

definition orderly :: "daemon \<Rightarrow> bool" where
  "orderly d = subseq (executed (log d) @ inflight (pc d)) (taken (log d))"

section \<open>Concrete environments\<close>

text \<open>
  Disks: one on which every write succeeds, one on which exactly the \<open>k\<close>-th write fails
  in \<open>open\<close>, one on which every write from the \<open>k\<close>-th on fails in \<open>open\<close>.
\<close>

definition writable :: "nat \<Rightarrow> failure option" where
  "writable n = None"

definition disk_full :: exn where
  "disk_full = Exn ''OSError'' ''No space left on device''"

definition fails_at :: "nat \<Rightarrow> nat \<Rightarrow> failure option" where
  "fails_at k n = (if n = k then Some (OpenRaises disk_full) else None)"

definition fails_from :: "nat \<Rightarrow> nat \<Rightarrow> failure option" where
  "fails_from k n = (if k \<le> n then Some (OpenRaises disk_full) else None)"

text \<open>
  A clock, the two kinds of messages of the agent, a tasks directory with two documents
  and an empty results directory, on a given disk or on the writable one, and four
  streams: one that ends on a result message whose subtype is neither \<open>success\<close> nor
  \<open>error\<close>, one that raises, one that reports an error, one that succeeds.
\<close>

definition example_clock :: "nat \<Rightarrow> real" where
  "example_clock n = 1000 + 7 * real n"

definition text_message :: "string \<Rightarrow> message" where
  "text_message t =
     \<lparr>subtype = None, result = None, usage = None, total_cost_usd = None,
      content = Some [\<lparr>block_text = Some t\<rparr>]\<rparr>"

definition result_message :: "string \<Rightarrow> string option \<Rightarrow> message" where
  "result_message s r =
     \<lparr>subtype = Some s, result = r, usage = Some ''{}'', total_cost_usd = Some ''0.01'',
      content = None\<rparr>"

definition example_world_on :: "(nat \<Rightarrow> failure option) \<Rightarrow> agent_stream \<Rightarrow> world" where
  "example_world_on rd strm =
     \<lparr>tasks_dir = ''tasks'',
      task_files = [''task-001.md'' \<mapsto> ''Summarise'', ''task-002.md'' \<mapsto> ''Report''],
      result_files = (\<lambda>i. Missing), result_disk = rd, result_writes = 0,
      clock = example_clock, reads = 0, agent = (\<lambda>n p. strm), calls = 0, asked = []\<rparr>"

definition example_world :: "agent_stream \<Rightarrow> world" where
  "example_world strm = example_world_on writable strm"

definition max_turns_stream :: agent_stream where
  "max_turns_stream =
     \<lparr>messages = [text_message ''working'', result_message ''error_max_turns'' None],
      raises = None\<rparr>"

definition broken_stream :: agent_stream where
  "broken_stream =
     \<lparr>messages = [text_message ''working''],
      raises = Some (Exn ''RuntimeError'' ''connection lost'')\<rparr>"

definition error_stream :: agent_stream where
  "error_stream =
     \<lparr>messages = [text_message ''working'', result_message ''error'' (Some ''boom'')],
      raises = None\<rparr>"

definition success_stream :: agent_stream where
  "success_stream =
     \<lparr>messages = [text_message ''working'', text_message ''done'',
                  result_message ''success'' (Some ''ok'')],
      raises = None\<rparr>"

text \<open>
  The results of the first task on the stream without terminal message, on the succeeding
  stream, on the error stream, and on the succeeding stream when the first write of the
  result fails.
\<close>

definition running_example :: TaskResult where
  "running_example =
     \<lparr>task_id = ''task-001'', status = RUNNING, created_at = 1000, started_at = 1007,
      completed_at = None, stdout = None, error = None, worker_output = None\<rparr>"

definition completed_example :: TaskResult where
  "completed_example =
     \<lparr>task_id = ''task-001'', status = COMPLETED, created_at = 1000, started_at = 1007,
      completed_at = Some 1014, stdout = None, error = None,
      worker_output = Some \<lparr>summary = ''ok'', raw_output = ''working'' @ CHR 0x0A # ''done'',
                             wo_usage = Some ''{}'', wo_cost_usd = Some ''0.01''\<rparr>\<rparr>"

definition failed_example :: TaskResult where
  "failed_example =
     \<lparr>task_id = ''task-001'', status = FAILED, created_at = 1000, started_at = 1007,
      completed_at = Some 1014, stdout = None, error = Some ''boom'',
      worker_output = None\<rparr>"

definition rewritten_example :: TaskResult where
  "rewritten_example =
     \<lparr>task_id = ''task-001'', status = FAILED, created_at = 1000, started_at = 1007,
      completed_at = Some 1021, stdout = None,
      error = Some ''OSError: No space left on device'',
      worker_output = Some \<lparr>summary = ''ok'', raw_output = ''working'' @ CHR 0x0A # ''done'',
                             wo_usage = Some ''{}'', wo_cost_usd = Some ''0.01''\<rparr>\<rparr>"

text \<open>
  Daemons on Python 3.11, started without a state file: after one task was enqueued, after
  two tasks were enqueued, and inside the execution of a task whose document does not
  exist, with a second task waiting.
\<close>

definition one_queued :: "(nat \<Rightarrow> failure option) \<Rightarrow> daemon" where
  "one_queued dk =
     run [Enqueue ''task-001.md'']
       (MonitorDaemon True Missing dk (example_world success_stream))"

definition two_queued :: "agent_stream \<Rightarrow> daemon" where
  "two_queued strm =
     run [Enqueue ''task-001.md'', Enqueue ''task-002.md'']
       (MonitorDaemon True Missing writable (example_world strm))"

definition missing_first :: daemon where
  "missing_first =
     run [Enqueue ''task-404.md'', Enqueue ''task-001.md'', Advance]
       (MonitorDaemon True Missing writable (example_world success_stream))"

lemmas example_defs = example_world_def example_world_on_def example_clock_def text_message_def
  result_message_def max_turns_stream_def broken_stream_def error_stream_def
  success_stream_def execute_task_def on_exception_def read_task_document_def now_def
  query_def save_result_def stem_def path_name_def path_parts_def py_or_def prompt_of_def
  Let_def writable_def fails_at_def disk_full_def

section \<open>Properties of the executor\<close>

lemma consume_cases:
  "consume ms e out r w = (x, r', w') \<Longrightarrow>
     (x = e \<and> r' = r \<and> w' = w \<and> (\<forall>m \<in> set ms. \<not> terminal_event m))
   \<or> (x = None \<and> (\<exists>m \<in> set ms. terminal_event m) \<and> w' = snd (now w) \<and>
        (\<exists>wo. r' = r\<lparr>status := COMPLETED, completed_at := Some (fst (now w)),
                         worker_output := Some wo\<rparr>))
   \<or> (x = None \<and> (\<exists>m \<in> set ms. terminal_event m) \<and> w' = snd (now w) \<and>
        (\<exists>s. r' = r\<lparr>status := FAILED, completed_at := Some (fst (now w)),
                        error := Some s\<rparr>))"
proof (induction ms arbitrary: out)
  case Nil
  then show ?case by simp
next
  case (Cons m ms)
  show ?case
  proof (cases "subtype m")
    case None
    then have nt: "\<not> terminal_event m" by (simp add: terminal_event_def)
    from None Cons.prems obtain out' where "consume ms e out' r w = (x, r', w')"
      by (auto split: option.splits)
    from Cons.IH[OF this] nt show ?thesis by auto
  next
    case (Some s)
    show ?thesis
    proof (cases "s = ''success''")
      case True
      with Some Cons.prems show ?thesis
        by (auto simp: terminal_event_def Let_def split: prod.splits)
    next
      case ns: False
      show ?thesis
      proof (cases "s = ''error''")
        case True
        with ns Some Cons.prems show ?thesis
          by (auto simp: terminal_event_def Let_def split: prod.splits)
      next
        case False
        with ns Some have nt: "\<not> terminal_event m" by (simp add: terminal_event_def)
        from False ns Some Cons.prems have "consume ms e out r w = (x, r', w')" by simp
        from Cons.IH[OF this] nt show ?thesis by auto
      qed
    qed
  qed
qed

lemma loop_statuses_empty:
  "(loop_statuses ms = []) = (\<forall>m \<in> set ms. \<not> terminal_event m)"
  by (induction ms) (auto simp: terminal_event_def split: option.splits)

lemma loop_statuses_cases:
  "loop_statuses ms = [] \<or> loop_statuses ms = [COMPLETED] \<or> loop_statuses ms = [FAILED]"
  by (induction ms) (auto split: option.splits)

lemma loop_statuses_consume:
  "consume ms e out r w = (x, r', w') \<Longrightarrow>
     status r' = last (status r # loop_statuses ms)"
  by (induction ms arbitrary: out) (auto simp: Let_def split: option.splits if_splits prod.splits)

text \<open>What the loop leaves of a result that was RUNNING and had no output.\<close>

lemma consume_running:
  assumes "consume ms e out r w = (x, r', w')"
    and "status r = RUNNING" "worker_output r = None"
  shows "(worker_output r' \<noteq> None) = (loop_statuses ms = [COMPLETED])"
    and "(status r' = COMPLETED) = (loop_statuses ms = [COMPLETED])"
    and "(status r' = FAILED) = (loop_statuses ms = [FAILED])"
    and "(status r' = RUNNING) = (loop_statuses ms = [])"
    and "x \<noteq> None \<Longrightarrow> loop_statuses ms = []"
  using assms
  by (induction ms arbitrary: out;
      auto simp: Let_def split: option.splits if_splits prod.splits)+

lemma save_result_fields [simp]:
  "fst (save_result r w) = map_option raised (result_disk w (result_writes w))"
  "result_files (snd (save_result r w)) =
     (result_files w)
       (task_id r := (case result_disk w (result_writes w) of
                        None \<Rightarrow> Holds r
                      | Some f \<Rightarrow> after_failure f (result_files w (task_id r))))"
  "result_writes (snd (save_result r w)) = Suc (result_writes w)"
  "result_disk (snd (save_result r w)) = result_disk w"
  "task_files (snd (save_result r w)) = task_files w"
  "tasks_dir (snd (save_result r w)) = tasks_dir w"
  "asked (snd (save_result r w)) = asked w"
  "calls (snd (save_result r w)) = calls w"
  "agent (snd (save_result r w)) = agent w"
  "reads (snd (save_result r w)) = reads w"
  "clock (snd (save_result r w)) = clock w"
  by (simp_all add: save_result_def split: option.splits)

text \<open>The shape of every call whose task document exists.\<close>

lemma execute_task_unfold:
  assumes "task_files w task_file = Some c"
  shows "execute_task task_file w =
     (let r0 = initial_result task_file w;
          w3 = w\<lparr>reads := Suc (Suc (reads w)), calls := Suc (calls w),
                 asked := asked w @ [prompt_of c]\<rparr>;
          (exc, r1, w4) = consume (messages (stream_of c w)) (raises (stream_of c w)) [] r0 w3;
          (exc1, w5) = (case exc of None \<Rightarrow> save_result r1 w4 | Some e \<Rightarrow> (Some e, w4))
      in case exc1 of
           None \<Rightarrow> (Inr r1, w5)
         | Some e \<Rightarrow> on_exception e r1 w5)"
  using assms
  by (simp add: execute_task_def read_task_document_def now_def query_def Let_def
      initial_result_def stream_of_def split: prod.splits option.splits)

lemma on_exception_cases:
  "on_exception e r w =
     (case result_disk w (result_writes w) of
        None \<Rightarrow>
          (Inr (r\<lparr>status := FAILED, error := Some (kind e @ '': '' @ message e),
                  completed_at := Some (clock w (reads w))\<rparr>),
           snd (save_result
                  (r\<lparr>status := FAILED, error := Some (kind e @ '': '' @ message e),
                     completed_at := Some (clock w (reads w))\<rparr>)
                  (w\<lparr>reads := Suc (reads w)\<rparr>)))
      | Some f \<Rightarrow>
          (Inl (raised f),
           snd (save_result
                  (r\<lparr>status := FAILED, error := Some (kind e @ '': '' @ message e),
                     completed_at := Some (clock w (reads w))\<rparr>)
                  (w\<lparr>reads := Suc (reads w)\<rparr>))))"
  by (simp add: on_exception_def now_def Let_def save_result_def split: option.splits)

text \<open>
  The three ways through \<open>execute_task\<close>: the result is written at once; the write
  raises and the \<open>except\<close> clause rewrites the result; the stream raises.
\<close>

lemma execute_task_ways [consumes 1, case_names stored rewritten raised]:
  assumes "task_files w task_file = Some c"
  obtains
    r1 w4 where
      "consume (messages (stream_of c w)) (raises (stream_of c w)) []
         (initial_result task_file w)
         (w\<lparr>reads := Suc (Suc (reads w)), calls := Suc (calls w),
            asked := asked w @ [prompt_of c]\<rparr>) = (None, r1, w4)"
      "result_disk w (result_writes w) = None"
      "execute_task task_file w = (Inr r1, snd (save_result r1 w4))"
  | r1 w4 f where
      "consume (messages (stream_of c w)) (raises (stream_of c w)) []
         (initial_result task_file w)
         (w\<lparr>reads := Suc (Suc (reads w)), calls := Suc (calls w),
            asked := asked w @ [prompt_of c]\<rparr>) = (None, r1, w4)"
      "result_disk w (result_writes w) = Some f"
      "execute_task task_file w = on_exception (raised f) r1 (snd (save_result r1 w4))"
  | e r1 w4 where
      "consume (messages (stream_of c w)) (raises (stream_of c w)) []
         (initial_result task_file w)
         (w\<lparr>reads := Suc (Suc (reads w)), calls := Suc (calls w),
            asked := asked w @ [prompt_of c]\<rparr>) = (Some e, r1, w4)"
      "raises (stream_of c w) = Some e" "r1 = initial_result task_file w"
      "w4 = w\<lparr>reads := Suc (Suc (reads w)), calls := Suc (calls w),
                asked := asked w @ [prompt_of c]\<rparr>"
      "execute_task task_file w = on_exception e r1 w4"
proof -
  let ?w3 = "w\<lparr>reads := Suc (Suc (reads w)), calls := Suc (calls w),
                asked := asked w @ [prompt_of c]\<rparr>"
  obtain x r1 w4 where cons:
    "consume (messages (stream_of c w)) (raises (stream_of c w)) []
       (initial_result task_file w) ?w3 = (x, r1, w4)"
    by (metis prod_cases3)
  have rw: "result_writes w4 = result_writes w" "result_disk w4 = result_disk w"
    using consume_cases[OF cons] by (auto simp: now_def)
  show ?thesis
  proof (cases x)
    case (Some e)
    with consume_cases[OF cons]
    have "raises (stream_of c w) = Some e" "r1 = initial_result task_file w" "w4 = ?w3"
      by auto
    moreover have "execute_task task_file w = on_exception e r1 w4"
      using cons Some by (simp add: execute_task_unfold[OF assms])
    ultimately show ?thesis using that(3) cons Some by blast
  next
    case None
    show ?thesis
    proof (cases "result_disk w (result_writes w)")
      case n: None
      have "execute_task task_file w = (Inr r1, snd (save_result r1 w4))"
        using cons None n rw
        by (simp add: execute_task_unfold[OF assms] save_result_def)
      with that(1) cons None n show ?thesis by blast
    next
      case (Some f)
      have "execute_task task_file w = on_exception (raised f) r1 (snd (save_result r1 w4))"
        using cons None Some rw
        by (simp add: execute_task_unfold[OF assms] save_result_def)
      with that(2) cons None Some show ?thesis by blast
    qed
  qed
qed

lemma execute_task_missing:
  "task_files w task_file = None \<Longrightarrow>
   execute_task task_file w = (Inl (not_found w task_file), w)"
  by (simp add: execute_task_def read_task_document_def not_found_def)

lemma execute_task_returns:
  assumes "execute_task task_file w = (Inr r, w')"
  shows "\<exists>c. task_files w task_file = Some c"
proof (cases "task_files w task_file")
  case None
  from execute_task_missing[OF None] assms show ?thesis by simp
next
  case (Some c)
  then show ?thesis by simp
qed

lemma execute_task_inr:
  assumes f: "task_files w task_file = Some c"
    and x: "execute_task task_file w = (Inr r, w')"
  shows "result_files w' (task_id r) = Holds r"
    and "task_id r = stem task_file" and "stdout r = None"
    and "started_at r = clock w (Suc (reads w))"
    and "(worker_output r \<noteq> None) = (loop_statuses (messages (stream_of c w)) = [COMPLETED])"
    and "terminal (status r) \<Longrightarrow> completed_at r \<noteq> None"
    and "status r = FAILED \<Longrightarrow> error r \<noteq> None"
    and "status r \<noteq> PENDING"
proof -
  have "result_files w' (task_id r) = Holds r \<and> task_id r = stem task_file \<and> stdout r = None
      \<and> started_at r = clock w (Suc (reads w))
      \<and> (worker_output r \<noteq> None) = (loop_statuses (messages (stream_of c w)) = [COMPLETED])
      \<and> (terminal (status r) \<longrightarrow> completed_at r \<noteq> None)
      \<and> (status r = FAILED \<longrightarrow> error r \<noteq> None) \<and> status r \<noteq> PENDING"
    using f
  proof (cases rule: execute_task_ways)
    case (stored r1 w4)
    from stored(3) x have r: "r = r1" and w: "w' = snd (save_result r1 w4)" by simp_all
    have k: "result_disk w4 (result_writes w4) = None"
      using consume_cases[OF stored(1)] stored(2) by (auto simp: now_def)
    from consume_cases[OF stored(1)] consume_running[OF stored(1)] k show ?thesis
      unfolding r w by (auto simp: initial_result_def terminal_def)
  next
    case (rewritten r1 w4 f1)
    let ?w5 = "snd (save_result r1 w4)"
    from rewritten(3) x have o: "on_exception (raised f1) r1 ?w5 = (Inr r, w')" by simp
    then have k: "result_disk ?w5 (result_writes ?w5) = None"
      by (simp add: on_exception_cases split: option.splits)
    from o k have r: "r = r1\<lparr>status := FAILED,
        error := Some (kind (raised f1) @ '': '' @ message (raised f1)),
        completed_at := Some (clock ?w5 (reads ?w5))\<rparr>"
      and w: "w' = snd (save_result r (?w5\<lparr>reads := Suc (reads ?w5)\<rparr>))"
      by (auto simp: on_exception_cases)
    have k2: "result_disk w4 (Suc (result_writes w4)) = None"
      using k by simp
    from consume_cases[OF rewritten(1)] consume_running[OF rewritten(1)] k2 show ?thesis
      unfolding w by (subst r, subst r) (auto simp: r initial_result_def terminal_def)
  next
    case (raised e r1 w4)
    from raised(5) x have o: "on_exception e r1 w4 = (Inr r, w')" by simp
    then have k: "result_disk w4 (result_writes w4) = None"
      by (simp add: on_exception_cases split: option.splits)
    from o k have r: "r = r1\<lparr>status := FAILED,
        error := Some (kind e @ '': '' @ message e),
        completed_at := Some (clock w4 (reads w4))\<rparr>"
      and w: "w' = snd (save_result r (w4\<lparr>reads := Suc (reads w4)\<rparr>))"
      by (auto simp: on_exception_cases)
    from consume_running(5)[OF raised(1)] k show ?thesis
      unfolding w by (auto simp: r raised(3) initial_result_def terminal_def)
  qed
  then show "result_files w' (task_id r) = Holds r"
    and "task_id r = stem task_file" and "stdout r = None"
    and "started_at r = clock w (Suc (reads w))"
    and "(worker_output r \<noteq> None) = (loop_statuses (messages (stream_of c w)) = [COMPLETED])"
    and "terminal (status r) \<Longrightarrow> completed_at r \<noteq> None"
    and "status r = FAILED \<Longrightarrow> error r \<noteq> None"
    and "status r \<noteq> PENDING"
    by auto
qed

lemma execute_task_persists:
  assumes "execute_task task_file w = (Inr r, w')"
  shows "result_files w' (task_id r) = Holds r"
proof -
  from execute_task_returns[OF assms] obtain c where f: "task_files w task_file = Some c" ..
  from execute_task_inr(1)[OF f assms] show ?thesis .
qed

text \<open>The call when the first write of the result succeeds.\<close>

lemma execute_task_result:
  assumes "task_files w task_file = Some c"
    and "result_disk w (result_writes w) = None"
  shows "\<exists>r w'. execute_task task_file w = (Inr r, w')
          \<and> result_files w' (stem task_file) = Holds r
          \<and> ((\<forall>m \<in> set (messages (stream_of c w)). \<not> terminal_event m)
                \<and> raises (stream_of c w) = None \<and> r = initial_result task_file w
            \<or> (\<forall>m \<in> set (messages (stream_of c w)). \<not> terminal_event m)
                \<and> (\<exists>e. raises (stream_of c w) = Some e
                     \<and> r = (initial_result task_file w)
                           \<lparr>status := FAILED, error := Some (kind e @ '': '' @ message e),
                            completed_at := Some (clock w (Suc (Suc (reads w))))\<rparr>)
            \<or> (\<exists>m \<in> set (messages (stream_of c w)). terminal_event m)
                \<and> (\<exists>wo. r = (initial_result task_file w)
                           \<lparr>status := COMPLETED,
                            completed_at := Some (clock w (Suc (Suc (reads w)))),
                            worker_output := Some wo\<rparr>)
            \<or> (\<exists>m \<in> set (messages (stream_of c w)). terminal_event m)
                \<and> (\<exists>s. r = (initial_result task_file w)
                           \<lparr>status := FAILED,
                            completed_at := Some (clock w (Suc (Suc (reads w)))),
                            error := Some s\<rparr>))"
  using assms(1)
proof (cases rule: execute_task_ways)
  case (stored r1 w4)
  have i: "task_id r1 = stem task_file"
    using consume_cases[OF stored(1)] by (auto simp: initial_result_def)
  have p: "result_files (snd (save_result r1 w4)) (stem task_file) = Holds r1"
    using execute_task_persists[OF stored(3)] i by simp
  from consume_cases[OF stored(1)] stored(3) p show ?thesis
    by (auto simp: now_def)
next
  case (rewritten r1 w4 f)
  with assms(2) show ?thesis by simp
next
  case (raised e r1 w4)
  let ?r = "(initial_result task_file w)
              \<lparr>status := FAILED, error := Some (kind e @ '': '' @ message e),
               completed_at := Some (clock w (Suc (Suc (reads w))))\<rparr>"
  have q: "\<forall>m \<in> set (messages (stream_of c w)). \<not> terminal_event m"
    using consume_running(5)[OF raised(1)]
    by (simp add: initial_result_def loop_statuses_empty)
  have x: "execute_task task_file w =
      (Inr ?r, snd (save_result ?r (w4\<lparr>reads := Suc (reads w4)\<rparr>)))"
    using raised(3,4,5) assms(2) by (simp add: on_exception_cases)
  have i: "task_id ?r = stem task_file" by (simp add: initial_result_def)
  from execute_task_persists[OF x] i x q raised(2) show ?thesis by metis
qed

lemma status_history_eq:
  assumes "task_files w task_file = Some c"
  shows "status_history task_file w =
     [RUNNING] @ loop_statuses (messages (stream_of c w)) @
       (if (loop_statuses (messages (stream_of c w)) = [] \<and> raises (stream_of c w) \<noteq> None)
           \<or> result_disk w (result_writes w) \<noteq> None
        then [FAILED] else [])"
proof -
  let ?w3 = "w\<lparr>reads := Suc (Suc (reads w)), calls := Suc (calls w),
                asked := asked w @ [prompt_of c]\<rparr>"
  obtain x r1 w4 where cons:
    "consume (messages (stream_of c w)) (raises (stream_of c w)) []
       (initial_result task_file w) ?w3 = (x, r1, w4)"
    by (metis prod_cases3)
  have rw: "result_writes w4 = result_writes w" "result_disk w4 = result_disk w"
    using consume_cases[OF cons] by (auto simp: now_def)
  have x: "x = (if loop_statuses (messages (stream_of c w)) = []
                then raises (stream_of c w) else None)"
    using consume_cases[OF cons] by (auto simp: loop_statuses_empty)
  have u: "status_history task_file w =
     (let (exc, r1, w4) = consume (messages (stream_of c w)) (raises (stream_of c w)) []
                            (initial_result task_file w) ?w3;
          (exc1, w5) = (case exc of None \<Rightarrow> save_result r1 w4 | Some e \<Rightarrow> (Some e, w4))
      in [RUNNING] @ loop_statuses (messages (stream_of c w)) @
         (case exc1 of None \<Rightarrow> [] | Some e \<Rightarrow> [FAILED]))"
    using assms
    by (simp add: status_history_def read_task_document_def now_def query_def Let_def
        initial_result_def stream_of_def split: prod.splits option.splits)
  have h: "status_history task_file w =
      (case (case x of None \<Rightarrow> save_result r1 w4 | Some e \<Rightarrow> (Some e, w4)) of
         (exc1, w5) \<Rightarrow>
           [RUNNING] @ loop_statuses (messages (stream_of c w)) @
           (case exc1 of None \<Rightarrow> [] | Some e \<Rightarrow> [FAILED]))"
    by (simp add: u cons)
  show ?thesis
  proof (cases x)
    case (Some e)
    with x have "loop_statuses (messages (stream_of c w)) = []"
      "raises (stream_of c w) \<noteq> None"
      by (auto split: if_splits dest: sym)
    with Some show ?thesis by (simp add: h)
  next
    case None
    with x have "loop_statuses (messages (stream_of c w)) \<noteq> [] \<or> raises (stream_of c w) = None"
      by (auto split: if_splits)
    with None rw show ?thesis
      by (cases "result_disk w (result_writes w)") (auto simp: h save_result_def)
  qed
qed

subsection \<open>Status, errors and output of one execution\<close>

text \<open>
  C3, as stated, fails. On a stream that ends without a \<open>success\<close> or \<open>error\<close> message
  the returned and persisted result is still RUNNING. And when the write of a COMPLETED
  result raises, the \<open>except\<close> clause turns it to FAILED: the status changes twice.
\<close>

theorem running_result_counterexample:
  "fst (execute_task ''task-001.md'' (example_world max_turns_stream)) = Inr running_example
   \<and> result_files (snd (execute_task ''task-001.md'' (example_world max_turns_stream)))
       ''task-001'' = Holds running_example
   \<and> status running_example = RUNNING
   \<and> status_history ''task-001.md'' (example_world_on (fails_at 0) success_stream) =
       [RUNNING, COMPLETED, FAILED]
   \<and> fst (execute_task ''task-001.md'' (example_world_on (fails_at 0) success_stream)) =
       Inr rewritten_example
   \<and> status rewritten_example = FAILED"
  by (simp add: example_defs running_example_def rewritten_example_def status_history_def)

text \<open>
  C3, amended: for every call of \<open>execute_task\<close> whose task document exists and whose
  write of the result file succeeds, the returned result is the persisted one; its status
  changes at most once, from RUNNING to COMPLETED or to FAILED, and never after that; it
  is terminal exactly when the stream yields a \<open>success\<close> or \<open>error\<close> message or
  raises, and stays RUNNING, without \<open>completed_at\<close>, when the stream ends without
  either.
\<close>

theorem status_changes_once:
  assumes "task_files w task_file = Some c"
    and "result_disk w (result_writes w) = None"
  shows "\<exists>r w'. execute_task task_file w = (Inr r, w')
          \<and> result_files w' (stem task_file) = Holds r
          \<and> status r = last (status_history task_file w)
          \<and> status_history task_file w \<in> {[RUNNING], [RUNNING, COMPLETED], [RUNNING, FAILED]}
          \<and> (terminal (status r) =
               ((\<exists>m \<in> set (messages (stream_of c w)). terminal_event m)
                \<or> raises (stream_of c w) \<noteq> None))
          \<and> (\<not> terminal (status r) \<longrightarrow> status r = RUNNING \<and> completed_at r = None)"
proof -
  let ?ms = "messages (stream_of c w)"
  have hist: "status_history task_file w =
      [RUNNING] @ loop_statuses ?ms @
        (if loop_statuses ?ms = [] \<and> raises (stream_of c w) \<noteq> None then [FAILED] else [])"
    using status_history_eq[OF assms(1)] assms(2) by simp
  have shape: "status_history task_file w \<in> {[RUNNING], [RUNNING, COMPLETED], [RUNNING, FAILED]}"
    using loop_statuses_cases[of ?ms] by (auto simp: hist)
  from execute_task_result[OF assms] obtain r w' where
    ex: "execute_task task_file w = (Inr r, w')" and
    pers: "result_files w' (stem task_file) = Holds r" and
    cs: "(\<forall>m \<in> set ?ms. \<not> terminal_event m)
                \<and> raises (stream_of c w) = None \<and> r = initial_result task_file w
            \<or> (\<forall>m \<in> set ?ms. \<not> terminal_event m)
                \<and> (\<exists>e. raises (stream_of c w) = Some e
                     \<and> r = (initial_result task_file w)
                           \<lparr>status := FAILED, error := Some (kind e @ '': '' @ message e),
                            completed_at := Some (clock w (Suc (Suc (reads w))))\<rparr>)
            \<or> (\<exists>m \<in> set ?ms. terminal_event m)
                \<and> (\<exists>wo. r = (initial_result task_file w)
                           \<lparr>status := COMPLETED,
                            completed_at := Some (clock w (Suc (Suc (reads w)))),
                            worker_output := Some wo\<rparr>)
            \<or> (\<exists>m \<in> set ?ms. terminal_event m)
                \<and> (\<exists>s. r = (initial_result task_file w)
                           \<lparr>status := FAILED,
                            completed_at := Some (clock w (Suc (Suc (reads w)))),
                            error := Some s\<rparr>)"
    by blast
  have tm: "terminal (status r) =
               ((\<exists>m \<in> set ?ms. terminal_event m) \<or> raises (stream_of c w) \<noteq> None)"
    using cs by (auto simp: terminal_def initial_result_def)
  have nt: "\<not> terminal (status r) \<longrightarrow> status r = RUNNING \<and> completed_at r = None"
    using cs by (auto simp: terminal_def initial_result_def)
  have "status r = last (status_history task_file w)"
    using assms(1)
  proof (cases rule: execute_task_ways)
    case (stored r1 w4)
    with ex have "r = r1" by simp
    with loop_statuses_consume[OF stored(1)] consume_cases[OF stored(1)]
    show ?thesis by (auto simp: hist initial_result_def loop_statuses_empty)
  next
    case (rewritten r1 w4 f)
    with assms(2) show ?thesis by simp
  next
    case (raised e r1 w4)
    with ex assms(2) consume_running(5)[OF raised(1)] show ?thesis
      by (auto simp: hist on_exception_cases initial_result_def)
  qed
  with ex pers shape tm nt show ?thesis by blast
qed

theorem status_changes_once_witness:
  "task_files (example_world broken_stream) ''task-001.md'' = Some ''Summarise''
   \<and> result_disk (example_world broken_stream) (result_writes (example_world broken_stream)) =
       None
   \<and> status_history ''task-001.md'' (example_world broken_stream) = [RUNNING, FAILED]
   \<and> (\<exists>r w'. execute_task ''task-001.md'' (example_world broken_stream) = (Inr r, w')
          \<and> result_files w' ''task-001'' = Holds r \<and> status r = FAILED)"
proof -
  have f: "task_files (example_world broken_stream) ''task-001.md'' = Some ''Summarise''"
    by (simp add: example_world_def example_world_on_def)
  have k: "result_disk (example_world broken_stream)
             (result_writes (example_world broken_stream)) = None"
    by (simp add: example_world_def example_world_on_def writable_def)
  have h: "status_history ''task-001.md'' (example_world broken_stream) = [RUNNING, FAILED]"
    by (simp add: status_history_def example_defs)
  have s: "stem ''task-001.md'' = ''task-001''"
    by (simp add: stem_def path_name_def path_parts_def)
  from status_changes_once[OF f k] f k h s show ?thesis by auto
qed




text \<open>
  C6: every result that \<open>execute_task\<close> returns in a terminal status is the persisted one,
  carries \<open>completed_at\<close>, and its derived \<open>duration_seconds\<close> is \<open>completed_at\<close> minus
  \<open>started_at\<close>.
\<close>

theorem terminal_duration:
  assumes "execute_task task_file w = (Inr r, w')" and "terminal (status r)"
  shows "result_files w' (task_id r) = Holds r
       \<and> (\<exists>c. completed_at r = Some c \<and> duration_seconds r = Some (c - started_at r))"
proof -
  from execute_task_returns[OF assms(1)] obtain c where f: "task_files w task_file = Some c" ..
  from execute_task_inr(1,6)[OF f assms(1)] assms(2) show ?thesis
    by (auto simp: duration_seconds_def)
qed

theorem terminal_duration_witness:
  "terminal (status (completed_example))
   \<and> fst (execute_task ''task-001.md'' (example_world success_stream)) = Inr completed_example
   \<and> result_files (snd (execute_task ''task-001.md'' (example_world success_stream)))
        ''task-001'' = Holds completed_example
   \<and> duration_seconds completed_example = Some 7"
proof -
  let ?x = "execute_task ''task-001.md'' (example_world success_stream)"
  have v: "fst ?x = Inr completed_example"
    by (simp add: example_defs completed_example_def)
  then have e: "?x = (Inr completed_example, snd ?x)"
    by (metis prod.collapse)
  have t: "terminal (status completed_example)"
    by (simp add: terminal_def completed_example_def)
  have i: "task_id completed_example = ''task-001''"
    and c: "completed_at completed_example = Some 1014"
    and st: "started_at completed_example = 1007"
    by (simp_all add: completed_example_def)
  from terminal_duration[OF e t] t v show ?thesis
    unfolding i by (auto simp: c st)
qed

text \<open>
  C10, as stated, fails: when the stream succeeds and the write of the COMPLETED result
  raises, the \<open>except\<close> clause turns the result to FAILED and writes it again; the
  returned and persisted FAILED result still carries \<open>worker_output\<close> with the
  accumulated output.
\<close>

theorem kept_output_counterexample:
  "fst (execute_task ''task-001.md'' (example_world_on (fails_at 0) success_stream)) =
     Inr rewritten_example
   \<and> result_files (snd (execute_task ''task-001.md''
                           (example_world_on (fails_at 0) success_stream))) ''task-001'' =
       Holds rewritten_example
   \<and> status rewritten_example = FAILED
   \<and> map_option raw_output (worker_output rewritten_example) =
       Some (''working'' @ CHR 0x0A # ''done'')"
  by (simp add: example_defs rewritten_example_def)

text \<open>
  C10, amended: the result that \<open>execute_task\<close> returns is the persisted one and never
  has captured output text; a FAILED result has an error string; \<open>worker_output\<close>, which
  holds the accumulated output, is present exactly when the stream reported success. So
  when the first write of the result file succeeds, as on every FAILED outcome that comes
  from an error event or from an exception of the agent, a FAILED result has no
  \<open>worker_output\<close> and \<open>worker_output\<close> is present exactly on COMPLETED results.
\<close>

theorem failed_discards_output:
  assumes "task_files w task_file = Some c"
    and "execute_task task_file w = (Inr r, w')"
  shows "result_files w' (task_id r) = Holds r
       \<and> stdout r = None
       \<and> (status r = FAILED \<longrightarrow> error r \<noteq> None)
       \<and> (worker_output r \<noteq> None) = (loop_statuses (messages (stream_of c w)) = [COMPLETED])
       \<and> (result_disk w (result_writes w) = None \<longrightarrow>
            (status r = FAILED \<longrightarrow> worker_output r = None)
            \<and> (worker_output r \<noteq> None) = (status r = COMPLETED))"
proof -
  have "(status r = FAILED \<longrightarrow> worker_output r = None)
            \<and> (worker_output r \<noteq> None) = (status r = COMPLETED)"
    if k: "result_disk w (result_writes w) = None"
    using execute_task_result[OF assms(1) k] assms(2)
    by (auto simp: initial_result_def)
  with execute_task_inr(1,3,5,7)[OF assms] show ?thesis by blast
qed

theorem failed_discards_output_witness:
  "task_files (example_world error_stream) ''task-001.md'' = Some ''Summarise''
   \<and> fst (execute_task ''task-001.md'' (example_world error_stream)) = Inr failed_example
   \<and> result_files (snd (execute_task ''task-001.md'' (example_world error_stream)))
        ''task-001'' = Holds failed_example
   \<and> status failed_example = FAILED
   \<and> worker_output failed_example = None \<and> stdout failed_example = None
   \<and> error failed_example = Some ''boom''"
proof -
  let ?w = "example_world error_stream"
  let ?x = "execute_task ''task-001.md'' ?w"
  have f: "task_files ?w ''task-001.md'' = Some ''Summarise''"
    by (simp add: example_world_def example_world_on_def)
  have k: "result_disk ?w (result_writes ?w) = None"
    by (simp add: example_world_def example_world_on_def writable_def)
  have v: "fst ?x = Inr failed_example"
    by (simp add: example_defs failed_example_def)
  then have e: "?x = (Inr failed_example, snd ?x)"
    by (metis prod.collapse)
  have i: "task_id failed_example = ''task-001''"
    and st: "status failed_example = FAILED"
    and er: "error failed_example = Some ''boom''"
    by (simp_all add: failed_example_def)
  from failed_discards_output[OF f e] f k v show ?thesis
    unfolding i by (auto simp: st er)
qed

section \<open>Properties of the daemon\<close>

subsection \<open>The steps of the queue and of the loop\<close>

lemma brackets_append [simp]: "brackets (l @ m) = foldl track (brackets l) m"
  by (simp add: brackets_def)

lemma executed_append [simp]: "executed (l @ m) = executed l @ executed m"
  by (induction l rule: executed.induct) auto

lemma taken_append [simp]: "taken (l @ m) = taken l @ taken m"
  by (induction l rule: taken.induct) auto

lemma executed_outcome [simp]: "executed (outcome_entry t res # l) = t # executed l"
  by (simp add: outcome_entry_def split: sum.splits)

lemma taken_outcome [simp]: "taken (outcome_entry t res # l) = taken l"
  by (simp add: outcome_entry_def split: sum.splits)

lemma swallowed_update [simp]:
  "swallowed (d\<lparr>queue := q\<rparr>) e = swallowed d e"
  "swallowed (d\<lparr>log := l\<rparr>) e = swallowed d e"
  "swallowed (d\<lparr>state_file := sf\<rparr>) e = swallowed d e"
  "swallowed (d\<lparr>writes := n\<rparr>) e = swallowed d e"
  "swallowed (d\<lparr>is_processing := b\<rparr>) e = swallowed d e"
  "swallowed (d\<lparr>current_task := c\<rparr>) e = swallowed d e"
  "swallowed (d\<lparr>env := w\<rparr>) e = swallowed d e"
  "swallowed (d\<lparr>pc := p\<rparr>) e = swallowed d e"
  by (simp_all add: swallowed_def)

lemma on_error_fields [simp]:
  "queue (on_error e d) = queue d"
  "log (on_error e d) = log d @ [ErrorProcessing e]"
  "current_task (on_error e d) = None"
  "is_processing (on_error e d) = False"
  "running (on_error e d) = running d"
  "disk (on_error e d) = disk d"
  "timeout_alias (on_error e d) = timeout_alias d"
  "env (on_error e d) = env d"
  "writes (on_error e d) = Suc (writes d)"
  "pc (on_error e d) =
     (case disk d (writes d) of None \<Rightarrow> Waiting | Some f \<Rightarrow> Crashed (raised f))"
  "state_file (on_error e d) =
     (case disk d (writes d) of
        None \<Rightarrow> Holds \<lparr>queue_size = length (queue d), state_current_task = None,
                         state_is_processing = False, queued_tasks = []\<rparr>
      | Some f \<Rightarrow> after_failure f (state_file d))"
  by (simp_all add: on_error_def save_state_def Let_def split: option.splits)

lemma except_clauses_fields [simp]:
  "queue (except_clauses e d) = queue d"
  "running (except_clauses e d) = running d"
  "disk (except_clauses e d) = disk d"
  "timeout_alias (except_clauses e d) = timeout_alias d"
  "env (except_clauses e d) = env d"
  "log (except_clauses e d) = log d @ (if swallowed d e then [] else [ErrorProcessing e])"
  "inflight (pc (except_clauses e d)) = []"
  by (simp_all add: except_clauses_def inflight_def split: option.splits)

lemma except_clauses_caught:
  "\<not> swallowed d e \<Longrightarrow> except_clauses e d = on_error e d"
  by (simp add: except_clauses_def)

lemma put_fields [simp]:
  "queue (snd (put f d)) = queue d @ [f]"
  "log (snd (put f d)) = log d @ [TaskQueued f (Suc (length (queue d)))]"
  "current_task (snd (put f d)) = current_task d"
  "is_processing (snd (put f d)) = is_processing d"
  "running (snd (put f d)) = running d"
  "disk (snd (put f d)) = disk d"
  "timeout_alias (snd (put f d)) = timeout_alias d"
  "env (snd (put f d)) = env d"
  "pc (snd (put f d)) = pc d"
  "writes (snd (put f d)) = Suc (writes d)"
  "state_file (snd (put f d)) =
     (case disk d (writes d) of
        None \<Rightarrow> Holds \<lparr>queue_size = Suc (length (queue d)),
                         state_current_task = current_task d,
                         state_is_processing = is_processing d, queued_tasks = []\<rparr>
      | Some f \<Rightarrow> after_failure f (state_file d))"
  by (simp_all add: put_def save_state_def Let_def split: option.splits)

lemma waiting_timeout:
  "pc d = Waiting \<Longrightarrow> running d \<Longrightarrow> queue d = [] \<Longrightarrow> process_queue d = d"
  by (simp add: process_queue_def get_next_def)

lemma waiting_exit:
  "pc d = Waiting \<Longrightarrow> \<not> running d \<Longrightarrow> process_queue d = d\<lparr>pc := Exited\<rparr>"
  by (simp add: process_queue_def)

lemma waiting_get_fails:
  "pc d = Waiting \<Longrightarrow> running d \<Longrightarrow> queue d = t # ts \<Longrightarrow> disk d (writes d) = Some f \<Longrightarrow>
   process_queue d =
     except_clauses (raised f)
       (d\<lparr>queue := ts, log := log d @ [TaskRetrieved t],
          state_file := after_failure f (state_file d), writes := Suc (writes d)\<rparr>)"
  by (simp add: process_queue_def get_next_def save_state_def)

lemma waiting_start_fails:
  "pc d = Waiting \<Longrightarrow> running d \<Longrightarrow> queue d = t # ts \<Longrightarrow> disk d (writes d) = None \<Longrightarrow>
   disk d (Suc (writes d)) = Some f \<Longrightarrow>
   process_queue d =
     except_clauses (raised f)
       (d\<lparr>queue := ts, log := log d @ [TaskRetrieved t, StartingTask t (length ts)],
          is_processing := True, current_task := Some t,
          state_file :=
            after_failure f
              (Holds \<lparr>queue_size = length ts, state_current_task = current_task d,
                      state_is_processing = is_processing d, queued_tasks = []\<rparr>),
          writes := Suc (Suc (writes d))\<rparr>)"
  by (simp add: process_queue_def get_next_def save_state_def)

lemma waiting_starts:
  "pc d = Waiting \<Longrightarrow> running d \<Longrightarrow> queue d = t # ts \<Longrightarrow> disk d (writes d) = None \<Longrightarrow>
   disk d (Suc (writes d)) = None \<Longrightarrow>
   process_queue d =
     d\<lparr>queue := ts, log := log d @ [TaskRetrieved t, StartingTask t (length ts)],
       is_processing := True, current_task := Some t,
       state_file := Holds \<lparr>queue_size = length ts, state_current_task = Some t,
                            state_is_processing = True, queued_tasks = []\<rparr>,
       writes := Suc (Suc (writes d)), pc := Executing t\<rparr>"
  by (simp add: process_queue_def get_next_def save_state_def)

lemma executing_ends:
  "pc d = Executing t \<Longrightarrow> disk d (writes d) = None \<Longrightarrow>
   process_queue d =
     d\<lparr>env := snd (execute_task t (env d)),
       log := log d @ [outcome_entry t (fst (execute_task t (env d)))],
       current_task := None, is_processing := False,
       state_file := Holds \<lparr>queue_size = length (queue d), state_current_task = None,
                            state_is_processing = False, queued_tasks = []\<rparr>,
       writes := Suc (writes d), pc := Waiting\<rparr>"
  by (simp add: process_queue_def save_state_def outcome_entry_def Let_def
      split: prod.splits sum.splits)

lemma executing_end_fails:
  "pc d = Executing t \<Longrightarrow> disk d (writes d) = Some f \<Longrightarrow>
   process_queue d =
     except_clauses (raised f)
       (d\<lparr>env := snd (execute_task t (env d)),
          log := log d @ [outcome_entry t (fst (execute_task t (env d)))],
          current_task := None, is_processing := False,
          state_file := after_failure f (state_file d), writes := Suc (writes d)\<rparr>)"
  by (simp add: process_queue_def save_state_def outcome_entry_def Let_def
      split: prod.splits sum.splits)

lemma stopped [simp]:
  "pc d = Exited \<Longrightarrow> process_queue d = d"
  "pc d = Crashed e \<Longrightarrow> process_queue d = d"
  by (simp_all add: process_queue_def)

text \<open>
  Every step of \<open>_process_queue\<close> is one of eight: the wait times out, the loop ends,
  the write in \<open>get_next\<close> fails, the write that announces the task fails, the task
  starts, the execution ends, the write after the execution fails, or the loop has
  stopped before.
\<close>

lemma process_queue_cases
  [case_names timeout exit get_fails start_fails starts ends end_fails stopped]:
  obtains
    "pc d = Waiting" "running d" "queue d = []" "process_queue d = d"
  | "pc d = Waiting" "\<not> running d" "process_queue d = d\<lparr>pc := Exited\<rparr>"
  | t ts f where "pc d = Waiting" "running d" "queue d = t # ts" "disk d (writes d) = Some f"
      "process_queue d =
         except_clauses (raised f)
           (d\<lparr>queue := ts, log := log d @ [TaskRetrieved t],
              state_file := after_failure f (state_file d), writes := Suc (writes d)\<rparr>)"
  | t ts f where "pc d = Waiting" "running d" "queue d = t # ts" "disk d (writes d) = None"
      "disk d (Suc (writes d)) = Some f"
      "process_queue d =
         except_clauses (raised f)
           (d\<lparr>queue := ts, log := log d @ [TaskRetrieved t, StartingTask t (length ts)],
              is_processing := True, current_task := Some t,
              state_file :=
                after_failure f
                  (Holds \<lparr>queue_size = length ts, state_current_task = current_task d,
                          state_is_processing = is_processing d, queued_tasks = []\<rparr>),
              writes := Suc (Suc (writes d))\<rparr>)"
  | t ts where "pc d = Waiting" "running d" "queue d = t # ts" "disk d (writes d) = None"
      "disk d (Suc (writes d)) = None"
      "process_queue d =
         d\<lparr>queue := ts, log := log d @ [TaskRetrieved t, StartingTask t (length ts)],
           is_processing := True, current_task := Some t,
           state_file := Holds \<lparr>queue_size = length ts, state_current_task = Some t,
                                state_is_processing = True, queued_tasks = []\<rparr>,
           writes := Suc (Suc (writes d)), pc := Executing t\<rparr>"
  | t where "pc d = Executing t" "disk d (writes d) = None"
      "process_queue d =
         d\<lparr>env := snd (execute_task t (env d)),
           log := log d @ [outcome_entry t (fst (execute_task t (env d)))],
           current_task := None, is_processing := False,
           state_file := Holds \<lparr>queue_size = length (queue d), state_current_task = None,
                                state_is_processing = False, queued_tasks = []\<rparr>,
           writes := Suc (writes d), pc := Waiting\<rparr>"
  | t f where "pc d = Executing t" "disk d (writes d) = Some f"
      "process_queue d =
         except_clauses (raised f)
           (d\<lparr>env := snd (execute_task t (env d)),
              log := log d @ [outcome_entry t (fst (execute_task t (env d)))],
              current_task := None, is_processing := False,
              state_file := after_failure f (state_file d), writes := Suc (writes d)\<rparr>)"
  | "pc d = Exited \<or> (\<exists>e. pc d = Crashed e)" "process_queue d = d"
proof (cases "pc d")
  case Waiting
  show ?thesis
  proof (cases "running d")
    case False
    with Waiting that(2) waiting_exit show ?thesis by blast
  next
    case True
    show ?thesis
    proof (cases "queue d")
      case Nil
      with Waiting True that(1) waiting_timeout show ?thesis by blast
    next
      case (Cons t ts)
      show ?thesis
      proof (cases "disk d (writes d)")
        case (Some f)
        from that(3)[OF Waiting True Cons Some waiting_get_fails[OF Waiting True Cons Some]]
        show ?thesis .
      next
        case None
        show ?thesis
        proof (cases "disk d (Suc (writes d))")
          case (Some f)
          from that(4)[OF Waiting True Cons None Some
              waiting_start_fails[OF Waiting True Cons None Some]]
          show ?thesis .
        next
          case n2: None
          from that(5)[OF Waiting True Cons None n2 waiting_starts[OF Waiting True Cons None n2]]
          show ?thesis .
        qed
      qed
    qed
  qed
next
  case (Executing t)
  show ?thesis
  proof (cases "disk d (writes d)")
    case None
    from that(6)[OF Executing None executing_ends[OF Executing None]] show ?thesis .
  next
    case (Some f)
    from that(7)[OF Executing Some executing_end_fails[OF Executing Some]] show ?thesis .
  qed
next
  case Exited
  with that(8) show ?thesis by simp
next
  case (Crashed e)
  with that(8) show ?thesis by simp
qed

subsection \<open>Invariants\<close>

lemma inflight_simps [simp]:
  "inflight Waiting = []" "inflight (Executing t) = [t]"
  "inflight Exited = []" "inflight (Crashed e) = []"
  by (simp_all add: inflight_def)

lemma after_failure_case:
  "after_failure f x = (case f of OpenRaises e \<Rightarrow> x | WriteRaises e \<Rightarrow> Broken)"
  by (cases f) simp_all

lemma unswallowed_put [simp]: "unswallowed (snd (put f d)) = unswallowed d"
  by (simp add: unswallowed_def swallowed_def)

lemma process_queue_frame [simp]:
  "disk (process_queue d) = disk d"
  "timeout_alias (process_queue d) = timeout_alias d"
  "running (process_queue d) = running d"
  by (cases d rule: process_queue_cases; simp)+

lemma unswallowed_process_queue [simp]: "unswallowed (process_queue d) = unswallowed d"
  by (simp add: unswallowed_def swallowed_def)

lemma unswallowed_run [simp]: "unswallowed (run evs d) = unswallowed d"
proof (induction evs arbitrary: d)
  case Nil
  show ?case by simp
next
  case (Cons ev evs)
  then show ?case by (cases ev) simp_all
qed

lemma coherent_init: "coherent sf (MonitorDaemon aliased sf dk w)"
  by (simp add: coherent_def MonitorDaemon_def brackets_def)

lemma coherent_put: "coherent sf d \<Longrightarrow> coherent sf (snd (put f d))"
  by (cases "disk d (writes d)"; cases "pc d")
     (auto simp: coherent_def after_failure_case split: json_file.splits failure.splits)

lemma coherent_process_queue:
  assumes "coherent sf d" and u: "unswallowed d"
  shows "coherent sf (process_queue d)"
proof (cases d rule: process_queue_cases)
  case timeout
  with assms show ?thesis by simp
next
  case exit
  with assms show ?thesis by (auto simp: coherent_def split: json_file.splits)
next
  case (get_fails t ts f)
  from u get_fails(4) have "\<not> swallowed d (raised f)" by (auto simp: unswallowed_def)
  with get_fails assms(1) show ?thesis
    by (cases f; cases "disk d (Suc (writes d))")
       (auto simp: coherent_def except_clauses_caught after_failure_case
          split: json_file.splits failure.splits)
next
  case (start_fails t ts f)
  from u start_fails(5) have "\<not> swallowed d (raised f)" by (auto simp: unswallowed_def)
  with start_fails assms(1) show ?thesis
    by (cases f; cases "disk d (Suc (Suc (writes d)))")
       (auto simp: coherent_def except_clauses_caught after_failure_case
          split: json_file.splits failure.splits)
next
  case (starts t ts)
  with assms show ?thesis by (simp add: coherent_def)
next
  case (ends t)
  with assms show ?thesis
    by (simp add: coherent_def outcome_entry_def split: sum.splits)
next
  case (end_fails t f)
  from u end_fails(2) have "\<not> swallowed d (raised f)" by (auto simp: unswallowed_def)
  with end_fails assms(1) show ?thesis
    by (cases f; cases "disk d (Suc (writes d))")
       (auto simp: coherent_def except_clauses_caught outcome_entry_def after_failure_case
          split: json_file.splits failure.splits sum.splits)
next
  case stopped
  with assms show ?thesis by simp
qed

lemma coherent_run: "coherent sf d \<Longrightarrow> unswallowed d \<Longrightarrow> coherent sf (run evs d)"
proof (induction evs arbitrary: d)
  case Nil
  then show ?case by simp
next
  case (Cons ev evs)
  then show ?case
    by (cases ev) (simp_all add: coherent_put coherent_process_queue)
qed

subsection \<open>Order of service\<close>

lemma healthy_init: "\<forall>n. dk n = None \<Longrightarrow> healthy (MonitorDaemon aliased sf dk w)"
  by (simp add: healthy_def MonitorDaemon_def)

lemma healthy_put:
  "healthy d \<Longrightarrow> healthy (snd (put f d)) \<and> task_order (snd (put f d)) = task_order d @ [f]"
  by (simp add: healthy_def task_order_def)

lemma healthy_process_queue:
  assumes "healthy d"
  shows "healthy (process_queue d) \<and> task_order (process_queue d) = task_order d
       \<and> remaining (process_queue d) = remaining d - 1"
proof (cases d rule: process_queue_cases)
  case timeout
  then show ?thesis using assms by (simp add: remaining_def)
next
  case exit
  then show ?thesis using assms by (simp add: healthy_def)
next
  case (get_fails t ts f)
  then show ?thesis using assms by (simp add: healthy_def)
next
  case (start_fails t ts f)
  then show ?thesis using assms by (simp add: healthy_def)
next
  case (starts t ts)
  then show ?thesis using assms
    by (simp add: healthy_def task_order_def remaining_def)
next
  case (ends t)
  then show ?thesis using assms
    by (simp add: healthy_def task_order_def remaining_def)
next
  case (end_fails t f)
  then show ?thesis using assms by (simp add: healthy_def)
next
  case stopped
  then show ?thesis using assms by (auto simp: healthy_def)
qed

lemma healthy_run:
  "healthy d \<Longrightarrow> healthy (run evs d) \<and> task_order (run evs d) = task_order d @ enqueued evs"
proof (induction evs arbitrary: d)
  case Nil
  then show ?case by simp
next
  case (Cons ev evs)
  show ?case
  proof (cases ev)
    case (Enqueue f)
    with Cons.IH[of "snd (put f d)"] healthy_put[OF Cons.prems, of f] show ?thesis by simp
  next
    case Advance
    with Cons.IH[of "process_queue d"] healthy_process_queue[OF Cons.prems] show ?thesis
      by simp
  qed
qed

lemma drain:
  "healthy d \<Longrightarrow> remaining d \<le> n \<Longrightarrow>
   executed (log (run (replicate n Advance) d)) = task_order d
   \<and> queue (run (replicate n Advance) d) = [] \<and> pc (run (replicate n Advance) d) = Waiting"
proof (induction n arbitrary: d)
  case 0
  then have "queue d = []" "inflight (pc d) = []" by (simp_all add: remaining_def)
  with 0 show ?case
    by (cases "pc d") (simp_all add: task_order_def healthy_def)
next
  case (Suc n)
  from healthy_process_queue[OF Suc.prems(1)] Suc.prems(2)
  have "healthy (process_queue d)" "remaining (process_queue d) \<le> n"
    "task_order (process_queue d) = task_order d" by simp_all
  with Suc.IH[of "process_queue d"] show ?case by simp
qed

lemma run_append: "run (xs @ ys) d = run ys (run xs d)"
  by (induction xs arbitrary: d) simp_all

lemma task_order_init: "task_order (MonitorDaemon aliased sf dk w) = []"
  by (simp add: task_order_def MonitorDaemon_def)

lemma remaining_bound: "remaining d \<le> Suc (2 * length (task_order d))"
  by (cases "pc d") (simp_all add: remaining_def task_order_def)

lemma subseq_snoc: "subseq xs ys \<Longrightarrow> subseq xs (ys @ zs)"
  by (rule list_emb_prefix)

lemma subseq_left: "subseq (xs @ ys) zs \<Longrightarrow> subseq xs zs"
  by (metis list_emb_appendD list_emb_prefix)

lemma taken_process_queue:
  "taken (log (process_queue d)) @ queue (process_queue d) = taken (log d) @ queue d"
  by (cases d rule: process_queue_cases) simp_all

lemma taken_run:
  "taken (log (run evs d)) @ queue (run evs d) = (taken (log d) @ queue d) @ enqueued evs"
proof (induction evs arbitrary: d)
  case Nil
  then show ?case by simp
next
  case (Cons ev evs)
  show ?case
  proof (cases ev)
    case (Enqueue f)
    with Cons[of "snd (put f d)"] show ?thesis by simp
  next
    case Advance
    with Cons[of "process_queue d"] taken_process_queue[of d] show ?thesis by simp
  qed
qed

lemma orderly_put: "orderly d \<Longrightarrow> orderly (snd (put f d))"
  by (simp add: orderly_def)

lemma orderly_process_queue:
  assumes "orderly d"
  shows "orderly (process_queue d)"
proof (cases d rule: process_queue_cases)
  case (get_fails t ts f)
  with assms show ?thesis
    by (auto simp: orderly_def intro: subseq_snoc)
next
  case (start_fails t ts f)
  with assms show ?thesis
    by (auto simp: orderly_def intro: subseq_snoc)
next
  case (starts t ts)
  with assms show ?thesis
    by (auto simp: orderly_def intro: list_emb_append_mono)
next
  case (ends t)
  with assms show ?thesis by (simp add: orderly_def)
next
  case (end_fails t f)
  with assms show ?thesis
    by (auto simp: orderly_def intro: subseq_snoc)
qed (use assms in \<open>auto simp: orderly_def\<close>)

lemma orderly_run: "orderly d \<Longrightarrow> orderly (run evs d)"
proof (induction evs arbitrary: d)
  case Nil
  then show ?case by simp
next
  case (Cons ev evs)
  then show ?case by (cases ev) (simp_all add: orderly_put orderly_process_queue)
qed

lemma executed_subseq:
  "subseq (executed (log (run evs (MonitorDaemon aliased sf dk w)))) (enqueued evs)"
proof -
  let ?d = "run evs (MonitorDaemon aliased sf dk w)"
  have "orderly (MonitorDaemon aliased sf dk w)"
    by (simp add: orderly_def MonitorDaemon_def)
  then have "orderly ?d" by (rule orderly_run)
  then have "subseq (executed (log ?d)) (taken (log ?d))"
    unfolding orderly_def by (rule subseq_left)
  moreover have "taken (log ?d) @ queue ?d = enqueued evs"
    using taken_run[of evs "MonitorDaemon aliased sf dk w"] by (simp add: MonitorDaemon_def)
  ultimately show ?thesis by (metis subseq_snoc)
qed

text \<open>The environment is what the executions recorded in the log have made of it.\<close>

lemma served_snoc: "served w (ts @ [t]) = snd (execute_task t (served w ts))"
  by (simp add: served_def)

lemma served_process_queue:
  "env d = served w (executed (log d)) \<Longrightarrow>
   env (process_queue d) = served w (executed (log (process_queue d)))"
  by (cases d rule: process_queue_cases) (simp_all add: served_snoc)

lemma served_run:
  "env d = served w (executed (log d)) \<Longrightarrow>
   env (run evs d) = served w (executed (log (run evs d)))"
proof (induction evs arbitrary: d)
  case Nil
  then show ?case by simp
next
  case (Cons ev evs)
  then show ?case by (cases ev) (simp_all add: served_process_queue)
qed

lemma served_init:
  "env (run evs (MonitorDaemon aliased sf dk w)) =
   served w (executed (log (run evs (MonitorDaemon aliased sf dk w))))"
  by (rule served_run) (simp add: MonitorDaemon_def served_def)

lemma execute_task_asked:
  "asked (snd (execute_task t w)) =
     asked w @ (case task_files w t of None \<Rightarrow> [] | Some c \<Rightarrow> [prompt_of c])
   \<and> task_files (snd (execute_task t w)) = task_files w"
proof (cases "task_files w t")
  case None
  then show ?thesis by (simp add: execute_task_missing)
next
  case (Some c)
  then show ?thesis
  proof (cases rule: execute_task_ways)
    case (stored r1 w4)
    with consume_cases[OF stored(1)] Some show ?thesis by (auto simp: now_def)
  next
    case (rewritten r1 w4 f)
    with consume_cases[OF rewritten(1)] Some show ?thesis
      by (auto simp: now_def on_exception_cases split: option.splits)
  next
    case (raised e r1 w4)
    with Some show ?thesis by (auto simp: on_exception_cases split: option.splits)
  qed
qed

lemma served_asked:
  "asked (served w ts) = asked w @ prompts w ts \<and> task_files (served w ts) = task_files w"
proof (induction ts rule: rev_induct)
  case Nil
  show ?case by (simp add: served_def prompts_def List.map_filter_simps)
next
  case (snoc t ts)
  with execute_task_asked[of t "served w ts"] show ?case
    by (auto simp: served_snoc prompts_def List.map_filter_def split: option.splits)
qed

subsection \<open>What the executions leave in the environment\<close>

lemma execute_task_frame:
  "result_disk (snd (execute_task t w)) = result_disk w"
  "i \<noteq> stem t \<Longrightarrow> result_files (snd (execute_task t w)) i = result_files w i"
proof -
  have "result_disk (snd (execute_task t w)) = result_disk w
      \<and> (i \<noteq> stem t \<longrightarrow> result_files (snd (execute_task t w)) i = result_files w i)"
  proof (cases "task_files w t")
    case None
    then show ?thesis by (simp add: execute_task_missing)
  next
    case (Some c)
    then show ?thesis
    proof (cases rule: execute_task_ways)
      case (stored r1 w4)
      with consume_cases[OF stored(1)] show ?thesis
        by (auto simp: now_def initial_result_def)
    next
      case (rewritten r1 w4 f)
      with consume_cases[OF rewritten(1)] show ?thesis
        by (auto simp: now_def initial_result_def on_exception_cases split: option.splits)
    next
      case (raised e r1 w4)
      then show ?thesis
        by (auto simp: initial_result_def on_exception_cases split: option.splits)
    qed
  qed
  then show "result_disk (snd (execute_task t w)) = result_disk w"
    and "i \<noteq> stem t \<Longrightarrow> result_files (snd (execute_task t w)) i = result_files w i"
    by simp_all
qed

lemma execute_task_stores:
  assumes "\<forall>n. result_disk w n = None"
  shows "task_files w t \<noteq> None \<Longrightarrow> stored_for (snd (execute_task t w)) t"
    and "stored_for w u \<Longrightarrow> stored_for (snd (execute_task t w)) u"
proof -
  have a: "stored_for (snd (execute_task t w)) t" if "task_files w t = Some c" for c
  proof -
    from assms have k: "result_disk w (result_writes w) = None" by simp
    from execute_task_result[OF that k] obtain r w' where
      x: "execute_task t w = (Inr r, w')" and p: "result_files w' (stem t) = Holds r"
      by blast
    from execute_task_inr(2)[OF that x] x p show ?thesis by (simp add: stored_for_def)
  qed
  then show "task_files w t \<noteq> None \<Longrightarrow> stored_for (snd (execute_task t w)) t" by auto
  show "stored_for (snd (execute_task t w)) u" if s: "stored_for w u"
  proof (cases "stem u = stem t")
    case False
    with s execute_task_frame(2)[of "stem u" t w] show ?thesis by (simp add: stored_for_def)
  next
    case True
    show ?thesis
    proof (cases "task_files w t")
      case None
      with s show ?thesis by (simp add: execute_task_missing)
    next
      case (Some c)
      from a[OF Some] True show ?thesis
        by (simp add: stored_for_def split: json_file.splits)
    qed
  qed
qed

lemma served_stores:
  assumes "\<forall>n. result_disk w n = None"
  shows "result_disk (served w ts) = result_disk w
       \<and> (\<forall>t \<in> set ts. task_files w t \<noteq> None \<longrightarrow> stored_for (served w ts) t)"
proof (induction ts rule: rev_induct)
  case Nil
  show ?case by (simp add: served_def)
next
  case (snoc u ts)
  let ?v = "served w ts"
  from snoc assms have k: "\<forall>n. result_disk ?v n = None" by simp
  have tf: "task_files ?v = task_files w" using served_asked[of w ts] by simp
  from snoc execute_task_stores[OF k] tf execute_task_frame(1)[of u ?v] show ?case
    by (auto simp: served_snoc)
qed

subsection \<open>Single steps and concrete runs\<close>

lemmas daemon_defs = MonitorDaemon_def put_def get_next_def save_state_def on_error_def
  except_clauses_def swallowed_def process_queue_def writable_def fails_at_def
  fails_from_def disk_full_def

lemma executing_step:
  assumes "pc d = Executing t"
  shows "env (process_queue d) = snd (execute_task t (env d))"
    and "\<forall>u. pc (process_queue d) \<noteq> Executing u"
  using assms
  by (cases d rule: process_queue_cases;
      simp add: except_clauses_def split: option.splits)+

subsection \<open>Sequential execution, order, and the state file\<close>

text \<open>
  C1, as stated, fails: with two tasks queued and an agent whose stream ends without a
  \<open>success\<close> or \<open>error\<close> message, the second task is in execution while the persisted
  result of the first is still RUNNING; it never reached COMPLETED or FAILED.
\<close>

theorem second_task_starts_counterexample:
  "pc (run [Advance, Advance, Advance] (two_queued max_turns_stream)) = Executing ''task-002.md''
   \<and> result_files (env (run [Advance, Advance, Advance] (two_queued max_turns_stream)))
        ''task-001'' = Holds running_example
   \<and> status running_example = RUNNING"
  by (simp add: two_queued_def daemon_defs example_defs running_example_def)

text \<open>
  C1, amended: in every run of the daemon in which no failed write of the state file is
  a time-out that the loop's \<open>except asyncio.TimeoutError\<close> catches, whatever the
  schedule of enqueue operations and loop steps, the file the run starts on and the disk,
  the log shows no task starting while another is in execution; whenever the state file
  reports \<open>is_processing\<close>, it is still the file the run started on, or its
  \<open>current_task\<close> is the one task in execution, or the loop has been ended by a failed
  write; and the step that ends an execution leaves the result that \<open>execute_task\<close>
  returned persisted, with no task in execution after it. The next execution begins only
  after that, whether the result is COMPLETED, FAILED or still RUNNING.
\<close>

theorem one_task_at_a_time:
  assumes "unswallowed (MonitorDaemon aliased sf dk w)"
  shows "brackets (log (run evs (MonitorDaemon aliased sf dk w))) =
     (case pc (run evs (MonitorDaemon aliased sf dk w)) of Executing t \<Rightarrow> Busy t | _ \<Rightarrow> Idle)
   \<and> (\<forall>s. state_file (run evs (MonitorDaemon aliased sf dk w)) = Holds s
          \<and> state_is_processing s \<longrightarrow>
         state_file (run evs (MonitorDaemon aliased sf dk w)) = sf
         \<or> (\<exists>t. state_current_task s = Some t
              \<and> (pc (run evs (MonitorDaemon aliased sf dk w)) = Executing t
                 \<or> (\<exists>e. pc (run evs (MonitorDaemon aliased sf dk w)) = Crashed e))))
   \<and> (\<forall>t r w'. pc (run evs (MonitorDaemon aliased sf dk w)) = Executing t
          \<and> execute_task t (env (run evs (MonitorDaemon aliased sf dk w))) = (Inr r, w') \<longrightarrow>
          result_files (env (process_queue (run evs (MonitorDaemon aliased sf dk w))))
            (task_id r) = Holds r
          \<and> (\<forall>u. pc (process_queue (run evs (MonitorDaemon aliased sf dk w))) \<noteq> Executing u))"
proof -
  let ?d = "run evs (MonitorDaemon aliased sf dk w)"
  have c: "coherent sf ?d" by (rule coherent_run[OF coherent_init assms])
  then have b: "brackets (log ?d) = (case pc ?d of Executing t \<Rightarrow> Busy t | _ \<Rightarrow> Idle)"
    by (simp add: coherent_def)
  have f: "state_file ?d = sf
         \<or> (\<exists>t. state_current_task s = Some t
              \<and> (pc ?d = Executing t \<or> (\<exists>e. pc ?d = Crashed e)))"
    if "state_file ?d = Holds s" "state_is_processing s" for s
    using c that by (cases "pc ?d") (auto simp: coherent_def)
  have p: "result_files (env (process_queue ?d)) (task_id r) = Holds r
          \<and> (\<forall>u. pc (process_queue ?d) \<noteq> Executing u)"
    if "pc ?d = Executing t" "execute_task t (env ?d) = (Inr r, w')" for t r w'
    using executing_step[OF that(1)] execute_task_persists[OF that(2)] that(2)
    by simp
  from b f p show ?thesis by blast
qed

theorem one_task_at_a_time_witness:
  "unswallowed (MonitorDaemon True Missing writable (example_world success_stream))
   \<and> pc (run [Advance] (two_queued success_stream)) = Executing ''task-001.md''
   \<and> brackets (log (run [Advance] (two_queued success_stream))) = Busy ''task-001.md''
   \<and> state_file (run [Advance] (two_queued success_stream)) =
       Holds \<lparr>queue_size = 1, state_current_task = Some ''task-001.md'',
              state_is_processing = True, queued_tasks = []\<rparr>
   \<and> result_files (env (process_queue (run [Advance] (two_queued success_stream))))
        ''task-001'' = Holds completed_example
   \<and> pc (process_queue (run [Advance] (two_queued success_stream))) = Waiting"
proof -
  let ?evs = "[Enqueue ''task-001.md'', Enqueue ''task-002.md'', Advance]"
  let ?d = "run ?evs (MonitorDaemon True Missing writable (example_world success_stream))"
  have u: "unswallowed (MonitorDaemon True Missing writable (example_world success_stream))"
    by (simp add: unswallowed_def MonitorDaemon_def writable_def)
  have d: "run [Advance] (two_queued success_stream) = ?d"
    by (simp add: two_queued_def)
  have pc: "pc ?d = Executing ''task-001.md''"
    by (simp add: daemon_defs)
  have sf: "state_file ?d =
       Holds \<lparr>queue_size = 1, state_current_task = Some ''task-001.md'',
              state_is_processing = True, queued_tasks = []\<rparr>"
    by (simp add: daemon_defs)
  have ex: "execute_task ''task-001.md'' (env ?d) =
      (Inr completed_example, snd (execute_task ''task-001.md'' (env ?d)))"
  proof -
    have "fst (execute_task ''task-001.md'' (env ?d)) = Inr completed_example"
      by (simp add: daemon_defs example_defs completed_example_def)
    then show ?thesis by (metis prod.collapse)
  qed
  have i: "task_id completed_example = ''task-001''"
    by (simp add: completed_example_def)
  have n: "pc (process_queue ?d) = Waiting"
    by (simp add: daemon_defs example_defs)
  from one_task_at_a_time[OF u, of ?evs] u pc sf ex i n
  show ?thesis unfolding d by auto
qed

text \<open>
  C2: whatever the disk does, the tasks that the executor has run are, in this order, a
  subsequence of the enqueue operations of the schedule, and the environment is what the
  calls of \<open>execute_task\<close> on these tasks, in this order, have made of it. When the writes
  of the state file succeed, the tasks run, the task in execution and the waiting tasks
  are at every moment exactly the enqueued tasks in their order, and after enough steps
  of the loop the executor has run exactly the enqueued tasks in the order of their
  enqueuing: the environment is the one that \<open>execute_task\<close> on E1, ..., En in this order
  leaves, the agent has received the prompts of their documents in this order, and, when
  the result files can be written, the results directory holds a result for each of them
  that has a document.
\<close>

theorem fifo_order:
  "subseq (executed (log (run evs (MonitorDaemon aliased sf dk w)))) (enqueued evs)
   \<and> env (run evs (MonitorDaemon aliased sf dk w)) =
       served w (executed (log (run evs (MonitorDaemon aliased sf dk w))))
   \<and> ((\<forall>n. dk n = None) \<longrightarrow>
        task_order (run evs (MonitorDaemon aliased sf dk w)) = enqueued evs
        \<and> executed (log (run (evs @ replicate (Suc (2 * length (enqueued evs))) Advance)
                           (MonitorDaemon aliased sf dk w))) = enqueued evs
        \<and> env (run (evs @ replicate (Suc (2 * length (enqueued evs))) Advance)
                  (MonitorDaemon aliased sf dk w)) = served w (enqueued evs)
        \<and> asked (env (run (evs @ replicate (Suc (2 * length (enqueued evs))) Advance)
                         (MonitorDaemon aliased sf dk w))) = asked w @ prompts w (enqueued evs)
        \<and> ((\<forall>n. result_disk w n = None) \<longrightarrow>
             (\<forall>t \<in> set (enqueued evs). task_files w t \<noteq> None \<longrightarrow>
                stored_for
                  (env (run (evs @ replicate (Suc (2 * length (enqueued evs))) Advance)
                          (MonitorDaemon aliased sf dk w))) t)))"
proof -
  let ?D = "MonitorDaemon aliased sf dk w"
  let ?d = "run evs ?D"
  let ?fin = "run (evs @ replicate (Suc (2 * length (enqueued evs))) Advance) ?D"
  have "task_order ?d = enqueued evs
        \<and> executed (log ?fin) = enqueued evs
        \<and> env ?fin = served w (enqueued evs)
        \<and> asked (env ?fin) = asked w @ prompts w (enqueued evs)
        \<and> ((\<forall>n. result_disk w n = None) \<longrightarrow>
             (\<forall>t \<in> set (enqueued evs). task_files w t \<noteq> None \<longrightarrow> stored_for (env ?fin) t))"
    if ok: "\<forall>n. dk n = None"
  proof -
    from healthy_run[OF healthy_init[OF ok], of evs aliased sf w]
    have h: "healthy ?d" and o: "task_order ?d = enqueued evs"
      by (simp_all add: task_order_init)
    from remaining_bound[of ?d] o
    have "remaining ?d \<le> Suc (2 * length (enqueued evs))" by simp
    from drain[OF h this] o have x: "executed (log ?fin) = enqueued evs"
      by (simp add: run_append)
    with served_init[of "evs @ replicate (Suc (2 * length (enqueued evs))) Advance" aliased sf dk w]
    have e: "env ?fin = served w (enqueued evs)" by simp
    with served_asked[of w "enqueued evs"] served_stores[of w "enqueued evs"] o x
    show ?thesis by simp
  qed
  with executed_subseq[of evs aliased sf dk w] served_init[of evs aliased sf dk w]
  show ?thesis by blast
qed

theorem fifo_order_witness:
  "enqueued [Enqueue ''task-001.md'', Advance, Enqueue ''task-002.md''] =
     [''task-001.md'', ''task-002.md'']
   \<and> executed (log (run ([Enqueue ''task-001.md'', Advance, Enqueue ''task-002.md'']
                          @ replicate 5 Advance)
                     (MonitorDaemon True Missing writable (example_world success_stream)))) =
       [''task-001.md'', ''task-002.md'']
   \<and> asked (env (run ([Enqueue ''task-001.md'', Advance, Enqueue ''task-002.md'']
                          @ replicate 5 Advance)
                     (MonitorDaemon True Missing writable (example_world success_stream)))) =
       [prompt_of ''Summarise'', prompt_of ''Report'']
   \<and> stored_for (env (run ([Enqueue ''task-001.md'', Advance, Enqueue ''task-002.md'']
                          @ replicate 5 Advance)
                     (MonitorDaemon True Missing writable (example_world success_stream))))
        ''task-002.md''"
proof -
  let ?evs = "[Enqueue ''task-001.md'', Advance, Enqueue ''task-002.md'']"
  let ?w = "example_world success_stream"
  have e: "enqueued ?evs = [''task-001.md'', ''task-002.md'']" by simp
  have n: "Suc (2 * length [''task-001.md'', ''task-002.md'']) = 5" by simp
  have k: "\<forall>n. writable n = None" by (simp add: writable_def)
  have r: "\<forall>n. result_disk ?w n = None"
    by (simp add: example_world_def example_world_on_def writable_def)
  have p: "asked ?w @ prompts ?w [''task-001.md'', ''task-002.md''] =
      [prompt_of ''Summarise'', prompt_of ''Report'']"
    by (simp add: prompts_def example_world_def example_world_on_def)
  have t: "task_files ?w ''task-002.md'' \<noteq> None"
    by (simp add: example_world_def example_world_on_def)
  note inst = fifo_order[of ?evs True Missing writable ?w, unfolded e n]
  note under = mp[OF conjunct2[OF conjunct2[OF inst]] k]
  note a = under[THEN conjunct2, THEN conjunct1]
  note b = trans[OF under[THEN conjunct2, THEN conjunct2, THEN conjunct2, THEN conjunct1] p]
  have m: "''task-002.md'' \<in> set [''task-001.md'', ''task-002.md'']" by simp
  note c = mp[OF bspec[OF mp[OF under[THEN conjunct2, THEN conjunct2, THEN conjunct2,
                                       THEN conjunct2] r] m] t]
  from e a b c show ?thesis by blast
qed

text \<open>
  C4: when the task document does not exist, \<open>execute_task\<close> raises the not-found error
  (Python's \<open>FileNotFoundError\<close>) and leaves the environment as it was, so no result, RUNNING
  or other, is persisted. The loop catches the error: the step that ends this execution
  logs the failure, leaves the queue as it is and returns to the head of the loop, and
  the next step starts the next queued task. The state file is taken to be writable.
\<close>

theorem missing_task_document:
  assumes "task_files w task_file = None"
  shows "execute_task task_file w = (Inl (not_found w task_file), w)
       \<and> (\<forall>d. pc d = Executing task_file \<and> env d = w \<and> disk d (writes d) = None \<longrightarrow>
            env (process_queue d) = w
            \<and> log (process_queue d) = log d @ [TaskFailed task_file (not_found w task_file)]
            \<and> pc (process_queue d) = Waiting
            \<and> queue (process_queue d) = queue d
            \<and> (\<forall>t ts. running d \<and> queue d = t # ts \<and> disk d (Suc (writes d)) = None
                        \<and> disk d (Suc (Suc (writes d))) = None \<longrightarrow>
                  pc (process_queue (process_queue d)) = Executing t
                  \<and> queue (process_queue (process_queue d)) = ts))"
proof -
  have x: "execute_task task_file w = (Inl (not_found w task_file), w)"
    by (rule execute_task_missing[OF assms])
  have "env (process_queue d) = w
            \<and> log (process_queue d) = log d @ [TaskFailed task_file (not_found w task_file)]
            \<and> pc (process_queue d) = Waiting
            \<and> queue (process_queue d) = queue d
            \<and> (\<forall>t ts. running d \<and> queue d = t # ts \<and> disk d (Suc (writes d)) = None
                        \<and> disk d (Suc (Suc (writes d))) = None \<longrightarrow>
                  pc (process_queue (process_queue d)) = Executing t
                  \<and> queue (process_queue (process_queue d)) = ts)"
    if p: "pc d = Executing task_file" and e: "env d = w" and k: "disk d (writes d) = None"
    for d
  proof -
    let ?d1 = "process_queue d"
    have d1: "?d1 =
         d\<lparr>env := w, log := log d @ [TaskFailed task_file (not_found w task_file)],
           current_task := None, is_processing := False,
           state_file := Holds \<lparr>queue_size = length (queue d), state_current_task = None,
                                state_is_processing = False, queued_tasks = []\<rparr>,
           writes := Suc (writes d), pc := Waiting\<rparr>"
      using executing_ends[OF p k] x e by (simp add: outcome_entry_def)
    have nxt: "pc (process_queue ?d1) = Executing t \<and> queue (process_queue ?d1) = ts"
      if "running d" "queue d = t # ts" "disk d (Suc (writes d)) = None"
        "disk d (Suc (Suc (writes d))) = None" for t ts
    proof -
      have "process_queue ?d1 =
         ?d1\<lparr>queue := ts, log := log ?d1 @ [TaskRetrieved t, StartingTask t (length ts)],
           is_processing := True, current_task := Some t,
           state_file := Holds \<lparr>queue_size = length ts, state_current_task = Some t,
                                state_is_processing = True, queued_tasks = []\<rparr>,
           writes := Suc (Suc (writes ?d1)), pc := Executing t\<rparr>"
        by (rule waiting_starts) (simp_all add: d1 that)
      then show ?thesis by simp
    qed
    from d1 nxt show ?thesis by simp
  qed
  with x show ?thesis by blast
qed

theorem missing_task_document_witness:
  "task_files (env missing_first) ''task-404.md'' = None
   \<and> pc missing_first = Executing ''task-404.md''
   \<and> queue missing_first = [''task-001.md'']
   \<and> fst (execute_task ''task-404.md'' (env missing_first)) =
       Inl (Exn ''FileNotFoundError'' ''Task document not found: tasks/task-404.md'')
   \<and> result_files (env (process_queue missing_first)) ''task-404'' = Missing
   \<and> pc (process_queue missing_first) = Waiting
   \<and> pc (process_queue (process_queue missing_first)) = Executing ''task-001.md''"
proof -
  let ?w = "example_world success_stream"
  have e: "env missing_first = ?w"
    by (simp add: missing_first_def daemon_defs)
  have f: "task_files ?w ''task-404.md'' = None"
    by (simp add: example_world_def example_world_on_def)
  have p: "pc missing_first = Executing ''task-404.md''"
    and q: "queue missing_first = [''task-001.md'']"
    and r: "running missing_first"
    by (simp_all add: missing_first_def daemon_defs)
  have k: "disk missing_first (writes missing_first) = None"
    "disk missing_first (Suc (writes missing_first)) = None"
    "disk missing_first (Suc (Suc (writes missing_first))) = None"
    by (simp_all add: missing_first_def daemon_defs)
  have n: "not_found ?w ''task-404.md'' =
      Exn ''FileNotFoundError'' ''Task document not found: tasks/task-404.md''"
    by (simp add: not_found_def task_path_def path_str_def path_join_def path_parts_def
        path_root_def example_world_def example_world_on_def)
  have m: "result_files ?w ''task-404'' = Missing"
    by (simp add: example_world_def example_world_on_def)
  note t = missing_task_document[OF f]
  have a: "pc missing_first = Executing ''task-404.md'' \<and> env missing_first = ?w
      \<and> disk missing_first (writes missing_first) = None"
    using p e k by simp
  have b: "running missing_first \<and> queue missing_first = [''task-001.md'']
      \<and> disk missing_first (Suc (writes missing_first)) = None
      \<and> disk missing_first (Suc (Suc (writes missing_first))) = None"
    using q r k by simp
  note s = mp[OF spec[OF conjunct2[OF t], of missing_first] a]
  from s b have "pc (process_queue (process_queue missing_first)) = Executing ''task-001.md''"
    by blast
  with conjunct1[OF t] s f p q n m show ?thesis
    by (simp add: e)
qed

text \<open>
  C7: the code at the failing input. After \<open>put\<close> of one task on the empty queue the queue
  holds the task, while the persisted \<open>queued_tasks\<close> and the answer of
  \<open>get_queued_tasks\<close> are empty.
\<close>

theorem queued_tasks_left_empty:
  "queue (one_queued writable) = [''task-001.md'']
   \<and> state_file (one_queued writable) =
       Holds \<lparr>queue_size = 1, state_current_task = None, state_is_processing = False,
              queued_tasks = []\<rparr>
   \<and> get_queued_tasks (one_queued writable) = Inr []"
  by (simp add: one_queued_def daemon_defs get_queued_tasks_def load_state_def)

text \<open>
  C8: every successful write of the state file, and so the one after every enqueue and the
  one after every dequeue, stores as \<open>queue_size\<close> the length of the queue at that
  moment.
\<close>

theorem queue_size_is_length:
  "(\<forall>d'. save_state d = (None, d') \<longrightarrow>
      (\<exists>s. state_file d' = Holds s \<and> queue_size s = length (queue d')))
   \<and> (disk d (writes d) = None \<longrightarrow>
        queue (snd (put f d)) = queue d @ [f]
        \<and> (\<exists>s. state_file (snd (put f d)) = Holds s
               \<and> queue_size s = length (queue (snd (put f d)))))
   \<and> (\<forall>t ts. queue d = t # ts \<and> disk d (writes d) = None \<longrightarrow>
        fst (get_next d) = Returned t \<and> queue (snd (get_next d)) = ts
        \<and> (\<exists>s. state_file (snd (get_next d)) = Holds s
               \<and> queue_size s = length (queue (snd (get_next d)))))"
  by (auto simp: save_state_def get_next_def Let_def split: option.splits)

theorem queue_size_is_length_witness:
  "queue (one_queued writable) = [''task-001.md'']
   \<and> map_json_file queue_size (state_file (snd (save_state (one_queued writable)))) = Holds 1
   \<and> queue (snd (put ''task-002.md'' (one_queued writable))) = [''task-001.md'', ''task-002.md'']
   \<and> map_json_file queue_size (state_file (snd (put ''task-002.md'' (one_queued writable)))) =
       Holds 2
   \<and> fst (get_next (one_queued writable)) = Returned ''task-001.md''
   \<and> queue (snd (get_next (one_queued writable))) = []
   \<and> map_json_file queue_size (state_file (snd (get_next (one_queued writable)))) = Holds 0"
proof -
  let ?d = "one_queued writable"
  have q: "queue ?d = [''task-001.md'']"
    and k: "disk ?d (writes ?d) = None"
    by (simp_all add: one_queued_def daemon_defs)
  have s: "save_state ?d = (None, snd (save_state ?d))"
    using k by (simp add: save_state_def)
  have l: "length (queue (snd (save_state ?d))) = 1"
    using q by (simp add: save_state_def split: option.splits)
  note t = queue_size_is_length[of ?d "''task-002.md''"]
  from t s l have a: "map_json_file queue_size (state_file (snd (save_state ?d))) = Holds 1"
    by auto
  from t k q have b: "queue (snd (put ''task-002.md'' ?d)) = [''task-001.md'', ''task-002.md'']
   \<and> map_json_file queue_size (state_file (snd (put ''task-002.md'' ?d))) = Holds 2"
    by auto
  from t k q have c: "fst (get_next ?d) = Returned ''task-001.md''
   \<and> queue (snd (get_next ?d)) = []
   \<and> map_json_file queue_size (state_file (snd (get_next ?d))) = Holds 0"
    by auto
  from q a b c show ?thesis by simp
qed

text \<open>
  C9, as stated, fails: with a writable state file the enqueued task is executed; when the
  write in \<open>get_next\<close> fails once, the task has left the queue and is never executed; when
  the writes keep failing, the exception leaves \<open>_process_queue\<close>.
\<close>

theorem dropped_task_counterexample:
  "executed (log (run [Advance, Advance, Advance] (one_queued writable))) = [''task-001.md'']
   \<and> executed (log (run [Advance, Advance, Advance] (one_queued (fails_at 1)))) = []
   \<and> queue (run [Advance, Advance, Advance] (one_queued (fails_at 1))) = []
   \<and> pc (run [Advance, Advance, Advance] (one_queued (fails_at 1))) = Waiting
   \<and> pc (run [Advance] (one_queued (fails_from 1))) = Crashed disk_full"
  by (simp add: one_queued_def daemon_defs example_defs)

text \<open>
  C9, amended: a failed write of the state file in \<open>put\<close> leaves the task enqueued and
  the loop, its flags and the environment as they are. A failed write in the loop whose
  exception is not a time-out caught by \<open>except asyncio.TimeoutError\<close> reaches the outer
  handler, which logs it, clears \<open>current_task\<close> and \<open>is_processing\<close> and writes the
  state again: when that write succeeds the file holds the cleared state and the loop
  goes on with the tasks still queued; when it fails too its exception ends the loop, and
  a loop that has ended stays so. The task that was dequeued when the write in
  \<open>get_next\<close> or the write announcing it failed is not executed: the environment is
  unchanged. A failed write after an execution loses nothing of it: its outcome is logged
  and the environment is the one it left.
\<close>

theorem persistence_failure_effects:
  "queue (snd (put f d)) = queue d @ [f] \<and> pc (snd (put f d)) = pc d
   \<and> current_task (snd (put f d)) = current_task d
   \<and> is_processing (snd (put f d)) = is_processing d
   \<and> env (snd (put f d)) = env d
   \<and> (\<forall>t ts x. pc d = Waiting \<and> running d \<and> queue d = t # ts \<and> disk d (writes d) = Some x
          \<and> \<not> swallowed d (raised x) \<longrightarrow>
        queue (process_queue d) = ts
        \<and> env (process_queue d) = env d
        \<and> log (process_queue d) = log d @ [TaskRetrieved t, ErrorProcessing (raised x)]
        \<and> current_task (process_queue d) = None
        \<and> \<not> is_processing (process_queue d)
        \<and> writes (process_queue d) = Suc (Suc (writes d))
        \<and> (case disk d (Suc (writes d)) of
              None \<Rightarrow>
                pc (process_queue d) = Waiting
                \<and> state_file (process_queue d) =
                    Holds \<lparr>queue_size = length ts, state_current_task = None,
                           state_is_processing = False, queued_tasks = []\<rparr>
            | Some y \<Rightarrow>
                pc (process_queue d) = Crashed (raised y)
                \<and> state_file (process_queue d) =
                    after_failure y (after_failure x (state_file d))))
   \<and> (\<forall>t ts x. pc d = Waiting \<and> running d \<and> queue d = t # ts \<and> disk d (writes d) = None
          \<and> disk d (Suc (writes d)) = Some x \<and> \<not> swallowed d (raised x) \<longrightarrow>
        queue (process_queue d) = ts
        \<and> env (process_queue d) = env d
        \<and> log (process_queue d) =
            log d @ [TaskRetrieved t, StartingTask t (length ts), ErrorProcessing (raised x)]
        \<and> current_task (process_queue d) = None
        \<and> \<not> is_processing (process_queue d)
        \<and> writes (process_queue d) = Suc (Suc (Suc (writes d)))
        \<and> (case disk d (Suc (Suc (writes d))) of
              None \<Rightarrow>
                pc (process_queue d) = Waiting
                \<and> state_file (process_queue d) =
                    Holds \<lparr>queue_size = length ts, state_current_task = None,
                           state_is_processing = False, queued_tasks = []\<rparr>
            | Some y \<Rightarrow>
                pc (process_queue d) = Crashed (raised y)
                \<and> state_file (process_queue d) =
                    after_failure y
                      (after_failure x
                         (Holds \<lparr>queue_size = length ts, state_current_task = current_task d,
                                 state_is_processing = is_processing d,
                                 queued_tasks = []\<rparr>))))
   \<and> (\<forall>t x. pc d = Executing t \<and> disk d (writes d) = Some x
          \<and> \<not> swallowed d (raised x) \<longrightarrow>
        queue (process_queue d) = queue d
        \<and> env (process_queue d) = snd (execute_task t (env d))
        \<and> log (process_queue d) =
            log d @ [outcome_entry t (fst (execute_task t (env d))),
                     ErrorProcessing (raised x)]
        \<and> current_task (process_queue d) = None
        \<and> \<not> is_processing (process_queue d)
        \<and> writes (process_queue d) = Suc (Suc (writes d))
        \<and> (case disk d (Suc (writes d)) of
              None \<Rightarrow>
                pc (process_queue d) = Waiting
                \<and> state_file (process_queue d) =
                    Holds \<lparr>queue_size = length (queue d), state_current_task = None,
                           state_is_processing = False, queued_tasks = []\<rparr>
            | Some y \<Rightarrow>
                pc (process_queue d) = Crashed (raised y)
                \<and> state_file (process_queue d) =
                    after_failure y (after_failure x (state_file d))))
   \<and> (\<forall>e. pc d = Crashed e \<longrightarrow> process_queue d = d)"
proof -
  have a: "queue (process_queue d) = ts
        \<and> env (process_queue d) = env d
        \<and> log (process_queue d) = log d @ [TaskRetrieved t, ErrorProcessing (raised x)]
        \<and> current_task (process_queue d) = None
        \<and> \<not> is_processing (process_queue d)
        \<and> writes (process_queue d) = Suc (Suc (writes d))
        \<and> (case disk d (Suc (writes d)) of
              None \<Rightarrow>
                pc (process_queue d) = Waiting
                \<and> state_file (process_queue d) =
                    Holds \<lparr>queue_size = length ts, state_current_task = None,
                           state_is_processing = False, queued_tasks = []\<rparr>
            | Some y \<Rightarrow>
                pc (process_queue d) = Crashed (raised y)
                \<and> state_file (process_queue d) =
                    after_failure y (after_failure x (state_file d)))"
    if "pc d = Waiting" "running d" "queue d = t # ts" "disk d (writes d) = Some x"
      "\<not> swallowed d (raised x)" for t ts x
    using waiting_get_fails[OF that(1-4)] that(5)
    by (simp add: except_clauses_caught split: option.splits)
  have b: "queue (process_queue d) = ts
        \<and> env (process_queue d) = env d
        \<and> log (process_queue d) =
            log d @ [TaskRetrieved t, StartingTask t (length ts), ErrorProcessing (raised x)]
        \<and> current_task (process_queue d) = None
        \<and> \<not> is_processing (process_queue d)
        \<and> writes (process_queue d) = Suc (Suc (Suc (writes d)))
        \<and> (case disk d (Suc (Suc (writes d))) of
              None \<Rightarrow>
                pc (process_queue d) = Waiting
                \<and> state_file (process_queue d) =
                    Holds \<lparr>queue_size = length ts, state_current_task = None,
                           state_is_processing = False, queued_tasks = []\<rparr>
            | Some y \<Rightarrow>
                pc (process_queue d) = Crashed (raised y)
                \<and> state_file (process_queue d) =
                    after_failure y
                      (after_failure x
                         (Holds \<lparr>queue_size = length ts, state_current_task = current_task d,
                                 state_is_processing = is_processing d,
                                 queued_tasks = []\<rparr>)))"
    if "pc d = Waiting" "running d" "queue d = t # ts" "disk d (writes d) = None"
      "disk d (Suc (writes d)) = Some x" "\<not> swallowed d (raised x)" for t ts x
    using waiting_start_fails[OF that(1-5)] that(6)
    by (simp add: except_clauses_caught split: option.splits)
  have c: "queue (process_queue d) = queue d
        \<and> env (process_queue d) = snd (execute_task t (env d))
        \<and> log (process_queue d) =
            log d @ [outcome_entry t (fst (execute_task t (env d))),
                     ErrorProcessing (raised x)]
        \<and> current_task (process_queue d) = None
        \<and> \<not> is_processing (process_queue d)
        \<and> writes (process_queue d) = Suc (Suc (writes d))
        \<and> (case disk d (Suc (writes d)) of
              None \<Rightarrow>
                pc (process_queue d) = Waiting
                \<and> state_file (process_queue d) =
                    Holds \<lparr>queue_size = length (queue d), state_current_task = None,
                           state_is_processing = False, queued_tasks = []\<rparr>
            | Some y \<Rightarrow>
                pc (process_queue d) = Crashed (raised y)
                \<and> state_file (process_queue d) =
                    after_failure y (after_failure x (state_file d)))"
    if "pc d = Executing t" "disk d (writes d) = Some x" "\<not> swallowed d (raised x)" for t x
    using executing_end_fails[OF that(1,2)] that(3)
    by (simp add: except_clauses_caught split: option.splits)
  have s: "process_queue d = d" if "pc d = Crashed e" for e
    using that by simp
  from a b c s show ?thesis by (simp (no_asm_simp))
qed

theorem persistence_failure_effects_witness:
  "queue (snd (put ''task-002.md'' (one_queued (fails_at 1)))) =
     [''task-001.md'', ''task-002.md'']
   \<and> queue (process_queue (one_queued (fails_at 1))) = []
   \<and> log (process_queue (one_queued (fails_at 1))) =
       [TaskQueued ''task-001.md'' 1, TaskRetrieved ''task-001.md'', ErrorProcessing disk_full]
   \<and> pc (process_queue (one_queued (fails_at 1))) = Waiting
   \<and> state_file (process_queue (one_queued (fails_at 1))) =
       Holds \<lparr>queue_size = 0, state_current_task = None, state_is_processing = False,
              queued_tasks = []\<rparr>
   \<and> queue (process_queue (one_queued (fails_at 2))) = []
   \<and> current_task (process_queue (one_queued (fails_at 2))) = None
   \<and> is_processing (process_queue (one_queued (fails_at 2))) = False
   \<and> pc (process_queue (one_queued (fails_at 2))) = Waiting
   \<and> executed (log (process_queue (process_queue (one_queued (fails_at 3))))) =
       [''task-001.md'']
   \<and> pc (process_queue (process_queue (one_queued (fails_at 3)))) = Waiting
   \<and> pc (process_queue (one_queued (fails_from 1))) = Crashed disk_full
   \<and> process_queue (process_queue (one_queued (fails_from 1))) =
       process_queue (one_queued (fails_from 1))"
proof -
  let ?a = "one_queued (fails_at 1)"
  let ?b = "one_queued (fails_at 2)"
  let ?c = "process_queue (one_queued (fails_at 3))"
  let ?d = "process_queue (one_queued (fails_from 1))"
  have a: "pc ?a = Waiting \<and> running ?a \<and> queue ?a = [''task-001.md'']
      \<and> disk ?a (writes ?a) = Some (OpenRaises disk_full)
      \<and> \<not> swallowed ?a (raised (OpenRaises disk_full))"
    and a': "disk ?a (Suc (writes ?a)) = None" "log ?a = [TaskQueued ''task-001.md'' 1]"
    by (simp_all add: one_queued_def daemon_defs)
  have b: "pc ?b = Waiting \<and> running ?b \<and> queue ?b = [''task-001.md'']
      \<and> disk ?b (writes ?b) = None \<and> disk ?b (Suc (writes ?b)) = Some (OpenRaises disk_full)
      \<and> \<not> swallowed ?b (raised (OpenRaises disk_full))"
    and b': "disk ?b (Suc (Suc (writes ?b))) = None"
    by (simp_all add: one_queued_def daemon_defs)
  have c: "pc ?c = Executing ''task-001.md''
      \<and> disk ?c (writes ?c) = Some (OpenRaises disk_full)
      \<and> \<not> swallowed ?c (raised (OpenRaises disk_full))"
    and c': "disk ?c (Suc (writes ?c)) = None" "executed (log ?c) = []"
    by (simp_all add: one_queued_def daemon_defs)
  have d: "pc ?d = Crashed disk_full"
    by (simp add: one_queued_def daemon_defs)
  have p: "queue ?a = [''task-001.md'']"
    by (simp add: one_queued_def daemon_defs)
  note ta = persistence_failure_effects[of "''task-002.md''" ?a]
  from conjunct1[OF ta] p
  have 1: "queue (snd (put ''task-002.md'' ?a)) = [''task-001.md'', ''task-002.md'']"
    by simp
  from ta[THEN conjunct2, THEN conjunct2, THEN conjunct2, THEN conjunct2, THEN conjunct2,
      THEN conjunct1, rule_format, OF a] a'
  have 2: "queue (process_queue ?a) = []
      \<and> log (process_queue ?a) =
          [TaskQueued ''task-001.md'' 1, TaskRetrieved ''task-001.md'',
           ErrorProcessing disk_full]
      \<and> pc (process_queue ?a) = Waiting
      \<and> state_file (process_queue ?a) =
          Holds \<lparr>queue_size = 0, state_current_task = None, state_is_processing = False,
                 queued_tasks = []\<rparr>"
    by simp
  note tb = persistence_failure_effects[of "''task-002.md''" ?b]
  from tb[THEN conjunct2, THEN conjunct2, THEN conjunct2, THEN conjunct2, THEN conjunct2,
      THEN conjunct2, THEN conjunct1, rule_format, OF b] b'
  have 3: "queue (process_queue ?b) = [] \<and> current_task (process_queue ?b) = None
      \<and> is_processing (process_queue ?b) = False \<and> pc (process_queue ?b) = Waiting"
    by simp
  note tc = persistence_failure_effects[of "''task-002.md''" ?c]
  from tc[THEN conjunct2, THEN conjunct2, THEN conjunct2, THEN conjunct2, THEN conjunct2,
      THEN conjunct2, THEN conjunct2, THEN conjunct1, rule_format, OF c] c'
  have 4: "executed (log (process_queue ?c)) = [''task-001.md'']
      \<and> pc (process_queue ?c) = Waiting"
    by simp
  note td = persistence_failure_effects[of "''task-002.md''" ?d]
  from td[THEN conjunct2, THEN conjunct2, THEN conjunct2, THEN conjunct2, THEN conjunct2,
      THEN conjunct2, THEN conjunct2, THEN conjunct2, rule_format, OF d]
  have 5: "process_queue ?d = ?d" .
  from 1 2 3 4 5 d show ?thesis by blast
qed

end
